theory Spec2Isabelle
  imports Main
begin

section \<open>Byte streams\<close>

text \<open>
  Go strings and byte slices are sequences of bytes: \<open>string\<close> (a list of 8-bit
  \<open>char\<close>). A reader (the subprocess's stdout pipe behind a \<open>bufio.Reader\<close>, a
  request body) is the bytes still to come together with the condition met once they
  are used up: end of stream or a read failure. That condition is terminal; every later
  read meets it again.
\<close>

datatype io_error = EOF | ReadFailure string

type_synonym reader = "string \<times> io_error"

abbreviation LF :: char where "LF \<equiv> CHR 0x0A"
abbreviation CR :: char where "CR \<equiv> CHR 0x0D"

section \<open>Line reader (windows_cgi.go, readWindowsLine)\<close>

text \<open>
  The loop of \<open>readWindowsLine\<close>, with the accumulated \<open>line\<close> as first argument.
  \<open>reader.ReadByte()\<close> fails with the terminal condition when no byte is left (first
  equation). \<open>reader.Peek(2)\<close> returns the next two bytes and no error when at least two
  bytes are left; otherwise it returns the bytes that are left together with the terminal
  condition as error. The result is the line and the reader after the consumed bytes.
\<close>

fun readWindowsLine_loop :: "string \<Rightarrow> string \<Rightarrow> io_error \<Rightarrow> io_error + (string \<times> reader)" where
  "readWindowsLine_loop line [] e =
     (if e = EOF \<and> length line > 0 then Inr (line, ([], e)) else Inl e)"
| "readWindowsLine_loop line (b # bs) e =
     (if b = LF then Inr (line, (bs, e))
      else if b = CR then
        (let peek = take 2 bs; err = (if 2 \<le> length bs then None else Some e) in
         if err = None \<and> length peek \<ge> 2 \<and> peek ! 0 = CR \<and> peek ! 1 = LF
           then Inr (line, (drop 2 bs, e))
         else if err = None \<and> length peek \<ge> 1 \<and> peek ! 0 = LF
           then Inr (line, (drop 1 bs, e))
         else readWindowsLine_loop (line @ [b]) bs e)
      else readWindowsLine_loop (line @ [b]) bs e)"

definition readWindowsLine :: "reader \<Rightarrow> io_error + (string \<times> reader)" where
  "readWindowsLine r = readWindowsLine_loop [] (fst r) (snd r)"

section \<open>String functions of the Go library used by the header parser\<close>

text \<open>
  \<open>strings.SplitN(line, ":", 2)\<close>: the whole line when it has no colon, otherwise the
  text before the first colon and the text after it.
\<close>

definition SplitN2 :: "string \<Rightarrow> string list" where
  "SplitN2 line =
     (if CHR '':'' \<in> set line
      then [takeWhile (\<lambda>c. c \<noteq> CHR '':'') line, tl (dropWhile (\<lambda>c. c \<noteq> CHR '':'') line)]
      else [line])"

text \<open>
  \<open>strings.TrimSpace\<close> removes leading and trailing white space as \<open>unicode.IsSpace\<close>
  defines it. On the bytes of a string these are the six ASCII space bytes and the UTF-8
  encodings of U+0085, U+00A0, U+1680, U+2000 to U+200A, U+2028, U+2029, U+202F, U+205F
  and U+3000. \<open>spaceWidth s\<close> is the number of bytes of the white-space rune at the head
  of \<open>s\<close>, and 0 when there is none.
\<close>

definition spaceWidth :: "string \<Rightarrow> nat" where
  "spaceWidth s =
     (case s of
        [] \<Rightarrow> 0
      | a # t \<Rightarrow>
          if a \<in> set [CHR 0x09, CHR 0x0A, CHR 0x0B, CHR 0x0C, CHR 0x0D, CHR 0x20] then 1
          else if take 2 s \<in> set [[CHR 0xC2, CHR 0x85], [CHR 0xC2, CHR 0xA0]] then 2
          else if take 3 s = [CHR 0xE1, CHR 0x9A, CHR 0x80] then 3
          else if take 2 s = [CHR 0xE2, CHR 0x80] \<and> length s \<ge> 3
                  \<and> (let n = (of_char (s ! 2) :: nat) in
                       (0x80 \<le> n \<and> n \<le> 0x8A) \<or> n = 0xA8 \<or> n = 0xA9 \<or> n = 0xAF) then 3
          else if take 3 s = [CHR 0xE2, CHR 0x81, CHR 0x9F] then 3
          else if take 3 s = [CHR 0xE3, CHR 0x80, CHR 0x80] then 3
          else 0)"

text \<open>The same for the white-space rune at the end of \<open>s\<close>.\<close>

definition spaceWidthEnd :: "string \<Rightarrow> nat" where
  "spaceWidthEnd s =
     (let n = length s in
      if n \<ge> 1 \<and> spaceWidth (drop (n - 1) s) = 1 then 1
      else if n \<ge> 2 \<and> spaceWidth (drop (n - 2) s) = 2 then 2
      else if n \<ge> 3 \<and> spaceWidth (drop (n - 3) s) = 3 then 3
      else 0)"

function TrimLeftSpace :: "string \<Rightarrow> string" where
  "TrimLeftSpace s = (if spaceWidth s = 0 then s else TrimLeftSpace (drop (spaceWidth s) s))"
  by pat_completeness auto
termination
proof (relation "measure length")
  fix s :: string
  assume "spaceWidth s \<noteq> 0"
  then have "s \<noteq> []" by (auto simp: spaceWidth_def)
  with \<open>spaceWidth s \<noteq> 0\<close> show "(drop (spaceWidth s) s, s) \<in> measure length" by simp
qed simp

function TrimRightSpace :: "string \<Rightarrow> string" where
  "TrimRightSpace s =
     (if spaceWidthEnd s = 0 then s
      else TrimRightSpace (take (length s - spaceWidthEnd s) s))"
  by pat_completeness auto
termination
proof (relation "measure length")
  fix s :: string
  assume "spaceWidthEnd s \<noteq> 0"
  then have "s \<noteq> []" by (auto simp: spaceWidthEnd_def)
  with \<open>spaceWidthEnd s \<noteq> 0\<close>
  show "(take (length s - spaceWidthEnd s) s, s) \<in> measure length" by simp
qed simp

definition TrimSpace :: "string \<Rightarrow> string" where
  "TrimSpace s = TrimRightSpace (TrimLeftSpace s)"

text \<open>
  \<open>strings.ToLower\<close> on the ASCII letters; other bytes are kept. No rune outside ASCII
  has a lower-case form among the letters of \<open>status\<close>, so the comparison with
  \<open>''status''\<close> agrees with Go's on every byte string.

  \<open>strings.ToUpper\<close> converts a string of ASCII bytes byte by byte; a string with any
  other byte is mapped rune by rune with the Unicode tables, \<open>strings.Map(unicode.ToUpper, s)\<close>.
  That mapping is the argument \<open>mapUpper\<close>.
\<close>

definition lowerByte :: "char \<Rightarrow> char" where
  "lowerByte c = (let n = (of_char c :: nat) in if 65 \<le> n \<and> n \<le> 90 then char_of (n + 32) else c)"

definition upperByte :: "char \<Rightarrow> char" where
  "upperByte c = (let n = (of_char c :: nat) in if 97 \<le> n \<and> n \<le> 122 then char_of (n - 32) else c)"

definition ToLower :: "string \<Rightarrow> string" where
  "ToLower s = map lowerByte s"

definition isASCII :: "string \<Rightarrow> bool" where
  "isASCII s = list_all (\<lambda>c. (of_char c :: nat) < 128) s"

definition ToUpper :: "(string \<Rightarrow> string) \<Rightarrow> string \<Rightarrow> string" where
  "ToUpper mapUpper s = (if isASCII s then map upperByte s else mapUpper s)"

text \<open>
  \<open>strconv.Atoi\<close> on a short string (the parser passes three bytes): an optional sign, then
  at least one decimal digit and nothing else. \<open>ch -= '0'\<close> is byte arithmetic, so a byte
  below \<open>'0'\<close> wraps around to a value above 9.
\<close>

fun atoi_digits :: "int \<Rightarrow> string \<Rightarrow> int option" where
  "atoi_digits n [] = Some n"
| "atoi_digits n (ch # s) =
     (let d = ((of_char ch :: nat) + 256 - 48) mod 256 in
      if d > 9 then None else atoi_digits (n * 10 + int d) s)"

definition Atoi :: "string \<Rightarrow> int option" where
  "Atoi s0 =
     (if s0 = [] then None
      else let s = (if hd s0 = CHR ''-'' \<or> hd s0 = CHR ''+'' then tl s0 else s0) in
        if length s < 1 then None
        else (case atoi_digits 0 s of
                None \<Rightarrow> None
              | Some n \<Rightarrow> Some (if hd s0 = CHR ''-'' then - n else n)))"

section \<open>Response headers (net/http, Header)\<close>

text \<open>
  \<open>http.Header\<close> is a Go map from field names to their values. \<open>Header.Add\<close> appends the
  value under the canonical form of the key (\<open>textproto.CanonicalMIMEHeaderKey\<close>): a key
  made of token bytes only gets an upper-case first letter and an upper-case letter after
  each hyphen, all other letters in lower case; a key with any other byte is kept as it is.
\<close>

type_synonym Header = "string \<rightharpoonup> string list"

definition validHeaderFieldByte :: "char \<Rightarrow> bool" where
  "validHeaderFieldByte c =
     (let n = (of_char c :: nat) in
      (48 \<le> n \<and> n \<le> 57) \<or> (65 \<le> n \<and> n \<le> 90) \<or> (97 \<le> n \<and> n \<le> 122)
      \<or> c \<in> set ''!#$%&*+-.^_`|~'' \<or> n = 39)"

definition canonicalByte :: "bool \<Rightarrow> char \<Rightarrow> char" where
  "canonicalByte upper c =
     (let n = (of_char c :: nat) in
      if upper \<and> 97 \<le> n \<and> n \<le> 122 then char_of (n - 32)
      else if \<not> upper \<and> 65 \<le> n \<and> n \<le> 90 then char_of (n + 32)
      else c)"

fun canonicalLoop :: "bool \<Rightarrow> string \<Rightarrow> string" where
  "canonicalLoop upper [] = []"
| "canonicalLoop upper (c # a) =
     (let c' = canonicalByte upper c in c' # canonicalLoop (c' = CHR ''-'') a)"

definition CanonicalMIMEHeaderKey :: "string \<Rightarrow> string" where
  "CanonicalMIMEHeaderKey s = (if list_all validHeaderFieldByte s then canonicalLoop True s else s)"

definition Header_Add :: "Header \<Rightarrow> string \<Rightarrow> string \<Rightarrow> Header" where
  "Header_Add h key val =
     (let k = CanonicalMIMEHeaderKey key in
      h(k \<mapsto> (case h k of None \<Rightarrow> [] | Some vs \<Rightarrow> vs) @ [val]))"

section \<open>Header parser (windows_cgi.go, parseWindowsHeaders)\<close>

datatype cgi_error = HeaderReadError io_error

text \<open>
  The body of the loop for a line that is not empty, on the loop's variables
  \<open>headers\<close> and \<open>statusCode\<close>: the \<open>continue\<close> of a line without colon leaves both as
  they are.
\<close>

definition headerLine :: "string \<Rightarrow> Header \<times> int \<Rightarrow> Header \<times> int" where
  "headerLine line st =
     (let headers = fst st; statusCode = snd st; parts = SplitN2 line in
      if length parts \<noteq> 2 then (headers, statusCode)
      else
        let key = TrimSpace (parts ! 0); val = TrimSpace (parts ! 1) in
        if ToLower key = ''status'' then
          (if length val \<ge> 3 then
             (case Atoi (take 3 val) of
                Some code \<Rightarrow> (headers, code)
              | None \<Rightarrow> (headers, statusCode))
           else (headers, statusCode))
        else (Header_Add headers key val, statusCode))"

lemma readWindowsLine_loop_length:
  "readWindowsLine_loop acc bs e = Inr (line, (rest, e')) \<Longrightarrow>
     length line + length rest \<le> length acc + length bs \<and> e' = e"
proof (induction acc bs e rule: readWindowsLine_loop.induct)
  case (1 line e)
  then show ?case by (simp split: if_splits)
next
  case (2 line b bs e)
  then show ?case by (auto simp: Let_def split: if_splits)
qed

lemma readWindowsLine_shorter:
  "readWindowsLine (bs, e) = Inr (line, (rest, e')) \<Longrightarrow> line \<noteq> [] \<Longrightarrow> length rest < length bs"
  using readWindowsLine_loop_length [of "[]" bs e line rest e']
  by (cases line) (simp_all add: readWindowsLine_def)

function parseWindowsHeaders_loop ::
  "Header \<times> int \<Rightarrow> reader \<Rightarrow> cgi_error + (Header \<times> int \<times> reader)" where
  "parseWindowsHeaders_loop st buf =
     (case readWindowsLine buf of
        Inl err \<Rightarrow> Inl (HeaderReadError err)
      | Inr (line, buf') \<Rightarrow>
          if length line = 0 then Inr (fst st, snd st, buf')
          else parseWindowsHeaders_loop (headerLine line st) buf')"
  by pat_completeness auto
termination
proof (relation "measure (\<lambda>(st, buf). length (fst buf))")
  fix st :: "Header \<times> int" and buf :: reader and x2 :: "string \<times> reader"
    and line :: string and buf' :: reader
  assume "readWindowsLine buf = Inr x2" "(line, buf') = x2" "length line \<noteq> 0"
  then have "readWindowsLine (fst buf, snd buf) = Inr (line, (fst buf', snd buf'))" "line \<noteq> []"
    by auto
  then have "length (fst buf') < length (fst buf)"
    by (rule readWindowsLine_shorter)
  then show "((headerLine line st, buf'), (st, buf)) \<in> measure (\<lambda>(st, buf). length (fst buf))"
    by simp
qed simp

definition parseWindowsHeaders :: "reader \<Rightarrow> cgi_error + (Header \<times> int \<times> reader)" where
  "parseWindowsHeaders reader = parseWindowsHeaders_loop (Map.empty, 200) reader"

section \<open>Requests and the CGI handler\<close>

text \<open>
  The fields of \<open>http.Request\<close> that the gateway reads or writes. \<open>Header\<close> is a Go map;
  \<open>TLS\<close> says whether the request's TLS state is present. The body is the original
  stream, or what the reframing step put in its place: the in-memory buffer or the
  temporary file with its content.
\<close>

datatype Body = OriginalBody reader | MemoryBody string | FileBody string

record Request =
  Method :: string
  URL_Path :: string
  URL_RawQuery :: string
  Header :: Header
  ContentLength :: int
  TransferEncoding :: "string list"
  Host :: string
  Proto :: string
  RemoteAddr :: string
  TLS :: bool
  Body :: Body

text \<open>The fields of \<open>cgi.Handler\<close> that are set in \<open>cgi.go\<close> and read in \<open>windows_cgi.go\<close>.\<close>

record Handler =
  Path :: string
  Root :: string
  Dir :: string
  Args :: "string list"
  Env :: "string list"
  InheritEnv :: "string list"

text \<open>The configuration of the module (the struct \<open>CGI\<close>); \<open>BufferLimit\<close> is an \<open>int64\<close>.\<close>

record CGI =
  Executable :: string
  WorkingDirectory :: string
  ScriptName :: string
  CGI_Args :: "string list"
  Envs :: "string list"
  PassEnvs :: "string list"
  PassAll :: bool
  Inspect :: bool
  BufferLimit :: int
  UnbufferedOutput :: bool

definition Header_Get :: "Header \<Rightarrow> string \<Rightarrow> string" where
  "Header_Get h key =
     (case h (CanonicalMIMEHeaderKey key) of
        None \<Rightarrow> []
      | Some v \<Rightarrow> if length v = 0 then [] else v ! 0)"

definition Header_Del :: "Header \<Rightarrow> string \<Rightarrow> Header" where
  "Header_Del h key = h(CanonicalMIMEHeaderKey key := None)"

text \<open>\<open>strconv.FormatInt(i, 10)\<close>.\<close>

function natDigits :: "nat \<Rightarrow> string" where
  "natDigits n =
     (if n < 10 then [char_of (48 + n)] else natDigits (n div 10) @ [char_of (48 + n mod 10)])"
  by pat_completeness auto
termination
  by (relation "measure id") auto

definition FormatInt :: "int \<Rightarrow> string" where
  "FormatInt i = (if i < 0 then CHR ''-'' # natDigits (nat (- i)) else natDigits (nat i))"

text \<open>\<open>strings.Split(s, sep)\<close> and \<open>strings.ReplaceAll(s, old, new)\<close> for one-byte arguments,
  \<open>strings.Join\<close>, \<open>strings.TrimPrefix\<close> and \<open>strings.Index(s, "=")\<close>.\<close>

fun Split :: "string \<Rightarrow> char \<Rightarrow> string list" where
  "Split [] sep = [[]]"
| "Split (c # s) sep =
     (if c = sep then [] # Split s sep
      else (case Split s sep of [] \<Rightarrow> [[c]] | p # ps \<Rightarrow> (c # p) # ps))"

definition ReplaceAll :: "string \<Rightarrow> char \<Rightarrow> char \<Rightarrow> string" where
  "ReplaceAll s old new = map (\<lambda>c. if c = old then new else c) s"

fun Join :: "string list \<Rightarrow> string \<Rightarrow> string" where
  "Join [] sep = []"
| "Join [a] sep = a"
| "Join (a # b # elems) sep = a @ sep @ Join (b # elems) sep"

definition TrimPrefix :: "string \<Rightarrow> string \<Rightarrow> string" where
  "TrimPrefix s prefix = (if take (length prefix) s = prefix then drop (length prefix) s else s)"

definition Index_eq :: "string \<Rightarrow> int" where
  "Index_eq str = (if CHR ''='' \<in> set str then int (length (takeWhile (\<lambda>c. c \<noteq> CHR ''='') str)) else - 1)"

section \<open>Environment builder (windows_cgi.go, buildEnv and getPort)\<close>

definition getPort :: "Request \<Rightarrow> string" where
  "getPort req =
     (let parts = Split (Host req) (CHR '':'') in
      if length parts > 1 then parts ! 1
      else if TLS req then ''443''
      else ''80'')"

text \<open>
  \<open>buildEnv\<close> ranges over the map \<open>req.Header\<close>; Go visits every key of a map once, in
  an order it does not fix. The argument \<open>order\<close> is that order. \<open>getenv\<close> is \<open>os.Getenv\<close>
  on the environment of the server process (the empty string for a variable that is not
  set) and \<open>mapUpper\<close> the Unicode mapping of \<open>strings.ToUpper\<close>. \<open>fixedEnv\<close> is the slice
  literal that \<open>env\<close> starts with.
\<close>

definition fixedEnv :: "Request \<Rightarrow> string list" where
  "fixedEnv req =
     [''REQUEST_METHOD='' @ Method req,
      ''SCRIPT_NAME='' @ URL_Path req,
      ''PATH_INFO='' @ URL_Path req,
      ''QUERY_STRING='' @ URL_RawQuery req,
      ''CONTENT_TYPE='' @ Header_Get (Header req) ''Content-Type'',
      ''CONTENT_LENGTH='' @ FormatInt (ContentLength req),
      ''SERVER_NAME='' @ Host req,
      ''SERVER_PORT='' @ getPort req,
      ''SERVER_PROTOCOL='' @ Proto req,
      ''SERVER_SOFTWARE=caddy-cgi'',
      ''GATEWAY_INTERFACE=CGI/1.1'',
      ''REMOTE_ADDR='' @ RemoteAddr req,
      ''REMOTE_HOST='' @ RemoteAddr req]"

definition buildEnv ::
  "Handler \<Rightarrow> (string \<Rightarrow> string) \<Rightarrow> (string \<Rightarrow> string) \<Rightarrow> string list \<Rightarrow> Request \<Rightarrow> string list" where
  "buildEnv h getenv mapUpper order req =
     (let env0 = fixedEnv req;
          env1 = fold (\<lambda>key env.
                   let values = (case Header req key of None \<Rightarrow> [] | Some vs \<Rightarrow> vs) in
                   if length values > 0
                   then env @ [''HTTP_'' @ ToUpper mapUpper (ReplaceAll key (CHR ''-'') (CHR ''_''))
                               @ ''='' @ values ! 0]
                   else env) order env0;
          env2 = env1 @ Env h;
          env3 = fold (\<lambda>key env.
                   let val = getenv key in
                   if val \<noteq> [] then env @ [key @ ''='' @ val] else env) (InheritEnv h) env2
      in env3)"

section \<open>The module's handler (cgi.go, ServeHTTP)\<close>

text \<open>
  \<open>passAll\<close> on \<open>os.Environ()\<close>, given as \<open>envList\<close>.
\<close>

definition passAll :: "string list \<Rightarrow> string list" where
  "passAll envList =
     fold (\<lambda>str list. let pos = Index_eq str in
                        if pos > 0 then list @ [take (nat pos) str] else list) envList []"

text \<open>
  The handler that \<open>ServeHTTP\<close> fills in before it serves the request (lines 60 to 88 and
  152 to 160). The replacer is Caddy's; \<open>repl vars s\<close> is \<open>repl.ReplaceAll(s, "")\<close> after the
  calls \<open>repl.Set(k, v)\<close> for the pairs of \<open>vars\<close>.
\<close>

definition cgiHandler ::
  "CGI \<Rightarrow> ((string \<times> string) list \<Rightarrow> string \<Rightarrow> string) \<Rightarrow> string \<Rightarrow> string list \<Rightarrow> Request \<Rightarrow> Handler" where
  "cgiHandler c repl username envList r =
     (let scriptName = repl [] (ScriptName c);
          scriptPath = TrimPrefix (URL_Path r) scriptName;
          root = ''/'';
          vars = [(''root'', root), (''path'', scriptPath)];
          path = repl vars (Executable c);
          args = fold (\<lambda>str args. args @ [repl vars str]) (CGI_Args c) [];
          envAdd = (\<lambda>key val env. env @ [key @ ''='' @ val]);
          env = envAdd ''PATH_INFO'' scriptPath [];
          env = envAdd ''SCRIPT_FILENAME'' path env;
          env = envAdd ''SCRIPT_NAME'' scriptName env;
          env = envAdd ''SCRIPT_EXEC'' (path @ '' '' @ Join args '' '') env;
          env = envAdd ''REMOTE_USER'' username env;
          env = fold (\<lambda>e env. env @ [repl vars e]) (Envs c) env
      in \<lparr>Path = path, Root = root, Dir = WorkingDirectory c, Args = args, Env = env,
          InheritEnv = (if PassAll c then passAll envList else PassEnvs c)\<rparr>)"

datatype serve_error =
    BodyReadError io_error
  | CreateTempError string
  | FileWriteError string
  | FileSeekError string
  | Panic string

text \<open>
  The platform: the width of Go's \<open>int\<close> and the allocator. \<open>make_bytes n\<close> says whether
  \<open>make([]byte, n)\<close> succeeds, and \<open>roundupsize n\<close> is the capacity that the runtime gives
  a slice allocated for \<open>n\<close> bytes when it rounds the size up.
\<close>

datatype arch = Int32 | Int64

fun intSize :: "arch \<Rightarrow> nat" where
  "intSize Int32 = 32"
| "intSize Int64 = 64"

record Runtime =
  GOARCH :: arch
  make_bytes :: "int \<Rightarrow> bool"
  roundupsize :: "int \<Rightarrow> int"

definition maxInt :: "Runtime \<Rightarrow> int" where
  "maxInt rt = 2 ^ (intSize (GOARCH rt) - 1) - 1"

text \<open>The conversion to \<open>int\<close> and the result of an addition of \<open>int\<close>: the value wraps.\<close>

definition toInt :: "Runtime \<Rightarrow> int \<Rightarrow> int" where
  "toInt rt x = (x + 2 ^ (intSize (GOARCH rt) - 1)) mod 2 ^ intSize (GOARCH rt)
                  - 2 ^ (intSize (GOARCH rt) - 1)"

text \<open>
  \<open>bytes.Buffer\<close>. The buffer of \<open>ServeHTTP\<close> is reset and then only written, so its read
  offset is 0; a buffer of the pool is \<open>nil\<close> when its capacity is 0. \<open>grow rt c m n\<close> is
  \<open>b.grow(n)\<close> on a buffer of capacity \<open>c\<close> and length \<open>m\<close>: room is found by reslicing, a
  \<open>nil\<close> buffer gets the small buffer of 64 bytes, the content is slid down, or
  \<open>growSlice\<close> allocates the larger of \<open>m + n\<close> and twice the capacity. It panics with
  \<open>ErrTooLarge\<close> when the new size does not fit \<open>int\<close> and when the allocation fails. The
  result is the capacity afterwards. \<open>Grow\<close> is \<open>b.Grow(n)\<close> on the empty buffer.
\<close>

definition grow :: "Runtime \<Rightarrow> int \<Rightarrow> int \<Rightarrow> int \<Rightarrow> serve_error + int" where
  "grow rt c m n =
     (if n \<le> c - m then Inr c
      else if c = 0 \<and> n \<le> 64 then Inr 64
      else if n \<le> c div 2 - m then Inr c
      else if c > maxInt rt - c - n then Inl (Panic ''bytes.Buffer: too large'')
      else
        (let c' = (if m + n < 2 * c then 2 * c else m + n) in
         if make_bytes rt c' then Inr (max c' (roundupsize rt c'))
         else Inl (Panic ''bytes.Buffer: too large'')))"

definition Grow :: "Runtime \<Rightarrow> int \<Rightarrow> int \<Rightarrow> serve_error + int" where
  "Grow rt c n =
     (if n < 0 then Inl (Panic ''bytes.Buffer.Grow: negative count'') else grow rt c 0 n)"

lemma grow_room:
  "grow rt c m 512 = Inr c1 \<Longrightarrow> 0 \<le> m \<Longrightarrow> 512 \<le> c1 - m"
  by (auto simp: grow_def Let_def split: if_splits)

text \<open>
  \<open>b.ReadFrom(r)\<close> for \<open>r\<close> the reader \<open>io.LimitReader(src, N)\<close>, which is how \<open>io.Copy\<close>
  writes to a \<open>bytes.Buffer\<close>. Every round makes room for \<open>bytes.MinRead\<close> = 512 bytes
  and reads into the free part of the buffer. The limited reader answers \<open>io.EOF\<close> when
  \<open>N\<close> is used up and cuts the read to \<open>N\<close> bytes otherwise; a read of the stream returns
  the bytes that are asked for as far as the stream has them, and the terminal
  condition when it has none. \<open>ReadFrom\<close> reports \<open>io.EOF\<close> as no error. The result is the
  content of the buffer, the error and the stream that is left.
\<close>

function ReadFrom ::
  "Runtime \<Rightarrow> int \<Rightarrow> string \<Rightarrow> reader \<Rightarrow> int
     \<Rightarrow> serve_error + (string \<times> io_error option \<times> reader)" where
  "ReadFrom rt c buf src N =
     (case grow rt c (int (length buf)) 512 of
        Inl p \<Rightarrow> Inl p
      | Inr c1 \<Rightarrow>
          if N \<le> 0 then Inr (buf, None, src)
          else if fst src = []
          then Inr (buf, (if snd src = EOF then None else Some (snd src)), src)
          else
            (let m = min (min (nat (c1 - int (length buf))) (nat N)) (length (fst src)) in
             ReadFrom rt c1 (buf @ take m (fst src)) (drop m (fst src), snd src) (N - int m)))"
  by pat_completeness auto
termination
  apply (relation "measure (\<lambda>(rt, c, buf, src, N). length (fst src))")
   apply simp
  subgoal for rt c buf src N c1 m
    using grow_room [of rt c "int (length buf)" c1] by simp
  done

declare ReadFrom.simps [simp del]

text \<open>
  \<open>io.CopyN(buf, r.Body, n)\<close> for the empty buffer of capacity \<open>c\<close>: \<open>n\<close> bytes written
  report no error, fewer bytes without error report \<open>io.EOF\<close>. The result is the bytes
  now in \<open>buf\<close>, the count, the error and the body that is left.
\<close>

definition CopyN ::
  "Runtime \<Rightarrow> int \<Rightarrow> reader \<Rightarrow> int
     \<Rightarrow> serve_error + (string \<times> int \<times> io_error option \<times> reader)" where
  "CopyN rt c src n =
     (case ReadFrom rt c [] src n of
        Inl p \<Rightarrow> Inl p
      | Inr (buf, err, src1) \<Rightarrow>
          (let written = int (length buf) in
           if written = n then Inr (buf, n, None, src1)
           else if written < n \<and> err = None then Inr (buf, written, Some EOF, src1)
           else Inr (buf, written, err, src1)))"

text \<open>What the operating system answers for the temporary file: an error or none.\<close>

record TempFS =
  CreateTemp_err :: "string option"
  Write_err :: "string option"
  Copy_err :: "string option"
  Seek_err :: "string option"

text \<open>The reader behind \<open>r.Body\<close>.\<close>

fun bodyReader :: "Body \<Rightarrow> reader" where
  "bodyReader (OriginalBody rd) = rd"
| "bodyReader (MemoryBody s) = (s, EOF)"
| "bodyReader (FileBody s) = (s, EOF)"

text \<open>
  Lines 111 to 137, the body is as long as the limit or longer: the temporary file gets
  the bytes of the buffer and then the rest of the body. \<open>io.CopyBuffer\<close> panics on a
  buffer of length 0; \<open>Copy_err\<close> is the error of a write of the rest. The result is the
  new body and the final \<open>size\<close>.
\<close>

definition spill :: "TempFS \<Rightarrow> string \<Rightarrow> int \<Rightarrow> reader \<Rightarrow> serve_error + (Body \<times> int)" where
  "spill fs buf size0 body1 =
     (if CreateTemp_err fs \<noteq> None then Inl (CreateTempError (the (CreateTemp_err fs)))
      else if Write_err fs \<noteq> None then Inl (FileWriteError (the (Write_err fs)))
      else if length buf = 0 then Inl (Panic ''empty buffer in CopyBuffer'')
      else if fst body1 \<noteq> [] \<and> Copy_err fs \<noteq> None then Inl (FileWriteError (the (Copy_err fs)))
      else if snd body1 \<noteq> EOF then Inl (BodyReadError (snd body1))
      else
        (let remainingSize = int (length (fst body1)) in
         if Seek_err fs \<noteq> None then Inl (FileSeekError (the (Seek_err fs)))
         else Inr (FileBody (buf @ fst body1), size0 + remainingSize)))"

text \<open>
  Lines 96 to 138: the body is read into the buffer of the pool, whose capacity is
  \<open>bufCap\<close>, and from there on into the temporary file. The result is the new body and
  \<open>size\<close>, or the error or panic that ends \<open>ServeHTTP\<close>.
\<close>

definition readBody :: "CGI \<Rightarrow> Runtime \<Rightarrow> int \<Rightarrow> TempFS \<Rightarrow> reader \<Rightarrow> serve_error + (Body \<times> int)" where
  "readBody c rt bufCap fs body =
     (case (if bufCap < toInt rt (BufferLimit c)
            then Grow rt bufCap (toInt rt (toInt rt (BufferLimit c) + 512))
            else Inr bufCap) of
        Inl p \<Rightarrow> Inl p
      | Inr cap1 \<Rightarrow>
          (case CopyN rt cap1 body (BufferLimit c) of
             Inl p \<Rightarrow> Inl p
           | Inr (buf, size0, err, body1) \<Rightarrow>
               if err \<noteq> None \<and> err \<noteq> Some EOF then Inl (BodyReadError (the err))
               else if size0 = BufferLimit c then spill fs buf size0 body1
               else Inr (MemoryBody buf, size0)))"

text \<open>
  Lines 92 to 150: the request after the reframing step, or the error that ends
  \<open>ServeHTTP\<close>.
\<close>

definition reframe :: "CGI \<Rightarrow> Runtime \<Rightarrow> int \<Rightarrow> TempFS \<Rightarrow> Request \<Rightarrow> serve_error + Request" where
  "reframe c rt bufCap fs r =
     (if length (TransferEncoding r) > 0 \<and> TransferEncoding r ! 0 = ''chunked'' then
        (case readBody c rt bufCap fs (bodyReader (Body r)) of
           Inl e \<Rightarrow> Inl e
         | Inr (newBody, size1) \<Rightarrow>
             Inr (r\<lparr>Body := newBody,
                    TransferEncoding := [],
                    Header := Header_Add (Header_Del (Header r) ''Transfer-Encoding'')
                                ''Content-Length'' (FormatInt size1),
                    ContentLength := size1\<rparr>))
      else Inr r)"

text \<open>
  How \<open>ServeHTTP\<close> ends (lines 162 to 170): with the call of \<open>inspect\<close> or of the handler's
  \<open>ServeHTTP\<close>, which builds the environment of the subprocess from the request that it
  is given. \<open>Served h u r\<close> is the call \<open>cgiHandler.ServeHTTP(cgiWriter, r)\<close> for the handler
  \<open>h\<close>, where \<open>u\<close> says whether the writer is wrapped in \<open>instantWriter\<close>.
\<close>

datatype handoff = Served Handler bool Request | Inspected Handler Request

definition ServeHTTP ::
  "CGI \<Rightarrow> Runtime \<Rightarrow> ((string \<times> string) list \<Rightarrow> string \<Rightarrow> string) \<Rightarrow> string \<Rightarrow> string list
     \<Rightarrow> int \<Rightarrow> TempFS \<Rightarrow> Request \<Rightarrow> serve_error + handoff" where
  "ServeHTTP c rt repl username envList bufCap fs r =
     (case reframe c rt bufCap fs r of
        Inl e \<Rightarrow> Inl e
      | Inr r1 \<Rightarrow>
          (let h = cgiHandler c repl username envList r in
           if Inspect c then Inr (Inspected h r1)
           else Inr (Served h (UnbufferedOutput c) r1)))"

section \<open>Response writer adapter (cgi.go, instantWriter)\<close>

text \<open>
  The wrapped \<open>http.ResponseWriter\<close>, with a state of any type: its \<open>Write\<close> returns the
  count and the error and changes the state; \<open>Flusher\<close> is its \<open>Flush\<close> when the writer
  implements \<open>http.Flusher\<close>. The type assertion of \<open>instantWriter.Write\<close> panics when it
  does not.
\<close>

record 'w ResponseWriter =
  Write :: "'w \<Rightarrow> string \<Rightarrow> (int \<times> string option) \<times> 'w"
  Flusher :: "('w \<Rightarrow> 'w) option"

definition instantWriter_Write ::
  "'w ResponseWriter \<Rightarrow> 'w \<Rightarrow> string \<Rightarrow> serve_error + ((int \<times> string option) \<times> 'w)" where
  "instantWriter_Write iw w b =
     (case Write iw w b of (res, w1) \<Rightarrow>
        (case Flusher iw of
           None \<Rightarrow> Inl (Panic ''interface conversion: not an http.Flusher'')
         | Some flush \<Rightarrow> Inr (res, flush w1)))"

section \<open>Applying the parsed headers (windows_cgi.go, ServeHTTP)\<close>

text \<open>
  Lines 80 to 85: the loop over the map of parsed headers, in the order \<open>order\<close> that Go
  takes for it, adds every value to the header map of the response.
\<close>

definition setHeaders :: "Header \<Rightarrow> string list \<Rightarrow> Header \<Rightarrow> Header" where
  "setHeaders headers order rwHeader =
     fold (\<lambda>key rwh. fold (\<lambda>val rwh. Header_Add rwh key val)
                           (case headers key of None \<Rightarrow> [] | Some vs \<Rightarrow> vs) rwh)
          order rwHeader"

section \<open>Header blocks and the mapping they stand for\<close>

text \<open>
  A line of the subprocess's output is its text and its line terminator; the reader
  yields it as a line when the text is not empty and has neither carriage return nor
  line feed and the terminator is one of the three that the reader knows. A header
  block is such lines and then the blank line, which is a line terminator alone: a line
  feed, a doubled carriage return with a line feed, or a carriage return with a line
  feed and at least one byte of body behind it.
\<close>

type_synonym output_line = "string \<times> string"

definition lineTerminators :: "string list" where
  "lineTerminators = [[LF], [CR, LF], [CR, CR, LF]]"

definition outputLine :: "output_line \<Rightarrow> bool" where
  "outputLine l =
     (fst l \<noteq> [] \<and> LF \<notin> set (fst l) \<and> CR \<notin> set (fst l) \<and> snd l \<in> set lineTerminators)"

definition blankLine :: "string \<Rightarrow> string \<Rightarrow> bool" where
  "blankLine tb body = (tb = [LF] \<or> tb = [CR, CR, LF] \<or> (tb = [CR, LF] \<and> body \<noteq> []))"

definition headerBlock :: "output_line list \<Rightarrow> string \<Rightarrow> string" where
  "headerBlock ls tb = concat (map (\<lambda>l. fst l @ snd l) ls) @ tb"

text \<open>
  A line \<open>Name: value\<close> has a colon; its name is the text before the first colon and its
  value the text behind it. The values that the lines of a block give to a key are the
  trimmed values, in the order of the lines, of the lines with a colon whose trimmed
  name is not \<open>Status\<close> in any letter case and has the key as canonical form.
  \<open>headersOf\<close> is the mapping with these values and \<open>addValues\<close> appends the values of a
  mapping to those a response header map holds.
\<close>

definition lineName :: "string \<Rightarrow> string" where
  "lineName text = takeWhile (\<lambda>c. c \<noteq> CHR '':'') text"

definition lineValue :: "string \<Rightarrow> string" where
  "lineValue text = tl (dropWhile (\<lambda>c. c \<noteq> CHR '':'') text)"

definition valuesOf :: "string \<Rightarrow> output_line list \<Rightarrow> string list" where
  "valuesOf k ls =
     map (\<lambda>l. TrimSpace (lineValue (fst l)))
       (filter (\<lambda>l. CHR '':'' \<in> set (fst l)
                     \<and> ToLower (TrimSpace (lineName (fst l))) \<noteq> ''status''
                     \<and> CanonicalMIMEHeaderKey (TrimSpace (lineName (fst l))) = k) ls)"

definition headersOf :: "output_line list \<Rightarrow> Header" where
  "headersOf ls = (\<lambda>k. if valuesOf k ls = [] then None else Some (valuesOf k ls))"

definition addValues :: "Header \<Rightarrow> Header \<Rightarrow> Header" where
  "addValues headers rwHeader =
     (\<lambda>k. case headers k of
            None \<Rightarrow> rwHeader k
          | Some vs \<Rightarrow> Some ((case rwHeader k of None \<Rightarrow> [] | Some ws \<Rightarrow> ws) @ vs))"

text \<open>The letter-case step of \<open>canonicalByte\<close> on the number of the byte.\<close>

definition canonicalNat :: "bool \<Rightarrow> nat \<Rightarrow> nat" where
  "canonicalNat upper n =
     (if upper \<and> 97 \<le> n \<and> n \<le> 122 then n - 32
      else if \<not> upper \<and> 65 \<le> n \<and> n \<le> 90 then n + 32
      else n)"

text \<open>The key of an environment entry \<open>KEY=VALUE\<close>.\<close>

definition envKey :: "string \<Rightarrow> string" where
  "envKey entry = takeWhile (\<lambda>c. c \<noteq> CHR ''='') entry"

text \<open>
  The name of the variable for a request header with an ASCII name: \<open>HTTP_\<close>, then the
  header name with its letters in upper case and every hyphen replaced by an
  underscore. \<open>headerValues\<close> is the list of values that the map of the request holds for
  a key.
\<close>

definition httpName :: "string \<Rightarrow> string" where
  "httpName key = ''HTTP_'' @ ReplaceAll (map upperByte key) (CHR ''-'') (CHR ''_'')"

definition headerValues :: "Request \<Rightarrow> string \<Rightarrow> string list" where
  "headerValues req key = (case Header req key of None \<Rightarrow> [] | Some vs \<Rightarrow> vs)"

section \<open>Properties of the line reader\<close>

declare parseWindowsHeaders_loop.simps [simp del]
declare TrimLeftSpace.simps [simp del]
declare TrimRightSpace.simps [simp del]
declare natDigits.simps [simp del]

lemma readWindowsLine_loop_no_LF:
  "LF \<notin> set bs \<Longrightarrow>
   readWindowsLine_loop acc bs e =
     (if e = EOF \<and> acc @ bs \<noteq> [] then Inr (acc @ bs, ([], e)) else Inl e)"
proof (induction bs arbitrary: acc)
  case Nil
  then show ?case by simp
next
  case (Cons b bs)
  then have b: "b \<noteq> LF" and bs: "LF \<notin> set bs" by auto
  have p0: "\<not> (1 \<le> length bs \<and> bs ! 0 = LF)" using bs by (cases bs) auto
  have p1: "\<not> (2 \<le> length bs \<and> bs ! 1 = LF)"
  proof
    assume "2 \<le> length bs \<and> bs ! 1 = LF"
    then have "LF \<in> set bs" using nth_mem [of 1 bs] by (simp del: One_nat_def)
    with bs show False by simp
  qed
  have "readWindowsLine_loop acc (b # bs) e = readWindowsLine_loop (acc @ [b]) bs e"
    using b p0 p1 by (simp add: Let_def)
  then show ?case using Cons.IH [OF bs, of "acc @ [b]"] by simp
qed

lemma readWindowsLine_loop_with_LF:
  "LF \<in> set bs \<Longrightarrow>
   \<exists>line. readWindowsLine_loop acc bs e = Inr (line, (tl (dropWhile (\<lambda>c. c \<noteq> LF) bs), e))"
proof (induction bs arbitrary: acc)
  case Nil
  then show ?case by simp
next
  case (Cons b bs)
  show ?case
  proof (cases "b = LF")
    case True
    then show ?thesis by simp
  next
    case False
    with Cons.prems have in_bs: "LF \<in> set bs" by simp
    have IH: "\<exists>line. readWindowsLine_loop (acc @ [b]) bs e
                = Inr (line, (tl (dropWhile (\<lambda>c. c \<noteq> LF) bs), e))"
      by (rule Cons.IH [OF in_bs])
    show ?thesis
    proof (cases "b = CR")
      case notCR: False
      with False IH show ?thesis by simp
    next
      case True
      show ?thesis
      proof (cases bs)
        case Nil
        with in_bs show ?thesis by simp
      next
        case (Cons x xs)
        note bs = Cons
        show ?thesis
        proof (cases xs)
          case Nil
          with bs in_bs have "x = LF" by simp
          with bs Nil True show ?thesis by simp
        next
          case (Cons y ys)
          show ?thesis
          proof (cases "x = LF")
            case xLF: True
            with bs Cons True show ?thesis by simp
          next
            case xn: False
            show ?thesis
            proof (cases "x = CR \<and> y = LF")
              case True
              with bs Cons \<open>b = CR\<close> show ?thesis by simp
            next
              case False
              then have "readWindowsLine_loop acc (b # bs) e = readWindowsLine_loop (acc @ [b]) bs e"
                using bs Cons \<open>b = CR\<close> xn by (auto simp: Let_def)
              with IH \<open>b \<noteq> LF\<close> show ?thesis by simp
            qed
          qed
        qed
      qed
    qed
  qed
qed

text \<open>
  C8, as the code has it. Every line terminator ends with a line feed. On a stream
  without line feed the reader reaches the end of the stream with all the bytes in its
  line buffer: if the stream ends cleanly and the buffer is not empty, the buffer is
  returned as the last line, without error; if the buffer is empty, the reader reports
  the end of the input; if the stream ends with a read failure, that failure is returned.
  On a stream with a line feed the call returns a line without error and leaves the
  reader behind the first line feed, whatever ends the stream: a read failure behind the
  line is left to the call that reaches it.
\<close>

theorem readWindowsLine_every_stream:
  "(LF \<notin> set bs \<longrightarrow>
      readWindowsLine (bs, e) = (if e = EOF \<and> bs \<noteq> [] then Inr (bs, ([], e)) else Inl e)) \<and>
   (LF \<in> set bs \<longrightarrow>
      (\<exists>line. readWindowsLine (bs, e) = Inr (line, (tl (dropWhile (\<lambda>c. c \<noteq> LF) bs), e))))"
  using readWindowsLine_loop_no_LF [of bs "[]" e] readWindowsLine_loop_with_LF [of bs "[]" e]
  by (simp add: readWindowsLine_def)

theorem readWindowsLine_every_stream_witness:
  "readWindowsLine (''ab'' @ [CR] @ ''c'', EOF) = Inr (''ab'' @ [CR] @ ''c'', ([], EOF)) \<and>
   readWindowsLine ([], EOF) = Inl EOF \<and>
   readWindowsLine (''ab'', ReadFailure ''broken pipe'') = Inl (ReadFailure ''broken pipe'') \<and>
   (\<exists>line. readWindowsLine (''ab'' @ [LF] @ ''c'', ReadFailure ''broken pipe'')
      = Inr (line, (''c'', ReadFailure ''broken pipe'')))"
  using readWindowsLine_every_stream [of "''ab'' @ [CR] @ ''c''" EOF]
    readWindowsLine_every_stream [of "[]" EOF]
    readWindowsLine_every_stream [of "''ab''" "ReadFailure ''broken pipe''"]
    readWindowsLine_every_stream [of "''ab'' @ [LF] @ ''c''" "ReadFailure ''broken pipe''"]
  by simp

text \<open>
  C8, as stated. On the bytes \<open>a\<close>, carriage return, line feed, followed by a read
  failure, \<open>Peek(2)\<close> meets the failure behind the carriage return; the tests of the
  peeked bytes ask for a peek without error and the failure is dropped: the call returns
  a line and no error.
\<close>

theorem readWindowsLine_peek_error_dropped:
  "readWindowsLine (''a'' @ [CR, LF], ReadFailure ''broken pipe'')
     = Inr (''a'' @ [CR], ([], ReadFailure ''broken pipe''))"
  by (simp add: readWindowsLine_def)

section \<open>Properties of the header parser\<close>

lemma SplitN2_no_colon: "CHR '':'' \<notin> set line \<Longrightarrow> SplitN2 line = [line]"
  by (simp add: SplitN2_def)

lemma parse_step:
  "readWindowsLine buf = Inr (line, buf') \<Longrightarrow> line \<noteq> [] \<Longrightarrow>
   parseWindowsHeaders_loop st buf = parseWindowsHeaders_loop (headerLine line st) buf'"
  by (subst parseWindowsHeaders_loop.simps) simp

lemma line_without_colon_step:
  assumes "readWindowsLine buf = Inr (line, buf')" and "line \<noteq> []"
    and "CHR '':'' \<notin> set line"
  shows "headerLine line (headers, statusCode) = (headers, statusCode) \<and>
         parseWindowsHeaders_loop (headers, statusCode) buf
           = parseWindowsHeaders_loop (headers, statusCode) buf'"
proof -
  have "headerLine line (headers, statusCode) = (headers, statusCode)"
    using assms(3) by (simp add: headerLine_def SplitN2_no_colon)
  then show ?thesis using parse_step [OF assms(1) assms(2), of "(headers, statusCode)"] by simp
qed

lemma parse_blank:
  "parseWindowsHeaders_loop st (LF # rest, e) = Inr (fst st, snd st, (rest, e))"
  by (subst parseWindowsHeaders_loop.simps) (simp add: readWindowsLine_def)

text \<open>
  C2. When a carriage return and a line feed are the last two bytes of the stream, the
  line that \<open>readWindowsLine\<close> returns keeps the carriage return: \<open>Peek(2)\<close> finds one byte
  only and reports the end of the stream, and both tests of the peeked bytes ask for a
  peek without error. With one more byte behind the line feed the same line comes
  back without the carriage return. For the header parser the blank line at the end of
  an output without body is then the line of one carriage return: it is skipped, and
  the parser fails at the end of the stream.
\<close>

theorem readWindowsLine_CR_LF_at_end:
  "readWindowsLine (''a'' @ [CR, LF], EOF) = Inr (''a'' @ [CR], ([], EOF)) \<and>
   readWindowsLine (''a'' @ [CR, LF] @ ''b'', EOF) = Inr (''a'', (''b'', EOF)) \<and>
   parseWindowsHeaders (''X: 1'' @ [CR, LF, CR, LF], EOF) = Inl (HeaderReadError EOF)"
proof -
  have r1: "readWindowsLine (''X: 1'' @ [CR, LF, CR, LF], EOF) = Inr (''X: 1'', ([CR, LF], EOF))"
    by (simp add: readWindowsLine_def)
  have r2: "readWindowsLine ([CR, LF], EOF) = Inr ([CR], ([], EOF))"
    by (simp add: readWindowsLine_def)
  have r3: "\<And>st. parseWindowsHeaders_loop st ([], EOF) = Inl (HeaderReadError EOF)"
    by (subst parseWindowsHeaders_loop.simps) (simp add: readWindowsLine_def)
  have "parseWindowsHeaders (''X: 1'' @ [CR, LF, CR, LF], EOF) = Inl (HeaderReadError EOF)"
    unfolding parseWindowsHeaders_def
    by (simp only: parse_step [OF r1] parse_step [OF r2] r3 list.distinct not_False_eq_True)
  then show ?thesis by (simp add: readWindowsLine_def)
qed

text \<open>
  C5. \<open>parseWindowsHeaders\<close> starts its loop with status 200. A line that the reader
  yields and whose trimmed key is \<open>status\<close> in lower case sets the status to the integer
  that the first three bytes of the trimmed value parse to, when the value has three
  bytes and they parse; otherwise the status stays. In both cases the headers stay and
  the parser goes on behind the line, so no error comes from the line.
\<close>

theorem status_line_sets_status:
  assumes "readWindowsLine buf = Inr (line, buf')" and "SplitN2 line = [k, v]"
    and "ToLower (TrimSpace k) = ''status''"
  shows "parseWindowsHeaders reader = parseWindowsHeaders_loop (Map.empty, 200) reader \<and>
         parseWindowsHeaders_loop (headers, statusCode) buf
           = parseWindowsHeaders_loop
               (headers,
                if 3 \<le> length (TrimSpace v)
                then (case Atoi (take 3 (TrimSpace v)) of Some code \<Rightarrow> code | None \<Rightarrow> statusCode)
                else statusCode) buf'"
proof -
  have ne: "line \<noteq> []" using assms(2) by (auto simp: SplitN2_def split: if_splits)
  have "headerLine line (headers, statusCode)
          = (headers,
             if 3 \<le> length (TrimSpace v)
             then (case Atoi (take 3 (TrimSpace v)) of Some code \<Rightarrow> code | None \<Rightarrow> statusCode)
             else statusCode)"
    using assms(2,3) by (simp add: headerLine_def split: option.splits)
  then show ?thesis
    using parse_step [OF assms(1) ne, of "(headers, statusCode)"]
    by (simp add: parseWindowsHeaders_def)
qed

theorem status_line_sets_status_witness:
  "parseWindowsHeaders (''Status: 404 Not Found'' @ [LF, LF], EOF) = Inr (Map.empty, 404, ([], EOF)) \<and>
   parseWindowsHeaders (''Status: abc'' @ [LF, LF], EOF) = Inr (Map.empty, 200, ([], EOF))"
proof -
  have r1: "readWindowsLine (''Status: 404 Not Found'' @ [LF, LF], EOF)
              = Inr (''Status: 404 Not Found'', ([LF], EOF))"
    by (simp add: readWindowsLine_def)
  have s1: "SplitN2 ''Status: 404 Not Found'' = [''Status'', '' 404 Not Found'']"
    by (simp add: SplitN2_def)
  have k: "ToLower (TrimSpace ''Status'') = ''status''" by code_simp
  have v1: "TrimSpace '' 404 Not Found'' = ''404 Not Found''" by code_simp
  have a1: "Atoi ''404'' = Some 404" by code_simp
  have r2: "readWindowsLine (''Status: abc'' @ [LF, LF], EOF) = Inr (''Status: abc'', ([LF], EOF))"
    by (simp add: readWindowsLine_def)
  have s2: "SplitN2 ''Status: abc'' = [''Status'', '' abc'']"
    by (simp add: SplitN2_def)
  have v2: "TrimSpace '' abc'' = ''abc''" by code_simp
  have a2: "Atoi ''abc'' = None" by code_simp
  show ?thesis
    using status_line_sets_status [OF r1 s1 k, of "(''Status: 404 Not Found'' @ [LF, LF], EOF)" Map.empty 200]
      status_line_sets_status [OF r2 s2 k, of "(''Status: abc'' @ [LF, LF], EOF)" Map.empty 200]
    by (simp add: v1 a1 v2 a2 parse_blank)
qed

subsection \<open>Canonical keys\<close>

lemma canonicalNat_U: "upper \<Longrightarrow> 97 \<le> n \<Longrightarrow> n \<le> 122 \<Longrightarrow> canonicalNat upper n = n - 32"
  by (simp add: canonicalNat_def)

lemma canonicalNat_L: "\<not> upper \<Longrightarrow> 65 \<le> n \<Longrightarrow> n \<le> 90 \<Longrightarrow> canonicalNat upper n = n + 32"
  by (simp add: canonicalNat_def)

lemma canonicalNat_O1: "upper \<Longrightarrow> n < 97 \<or> 122 < n \<Longrightarrow> canonicalNat upper n = n"
  by (auto simp: canonicalNat_def)

lemma canonicalNat_O2: "\<not> upper \<Longrightarrow> n < 65 \<or> 90 < n \<Longrightarrow> canonicalNat upper n = n"
  by (auto simp: canonicalNat_def)

lemma canonicalNat_cases:
  fixes n :: nat
  obtains (U) "upper" "97 \<le> n" "n \<le> 122" | (L) "\<not> upper" "65 \<le> n" "n \<le> 90"
    | (O1) "upper" "n < 97 \<or> 122 < n" | (O2) "\<not> upper" "n < 65 \<or> 90 < n"
  by (cases upper) (force, force)

lemma canonicalNat_less: "n < 256 \<Longrightarrow> canonicalNat upper n < 256"
  unfolding canonicalNat_def by (cases upper) arith+

lemma canonicalNat_idem: "canonicalNat upper (canonicalNat upper n) = canonicalNat upper n"
proof (cases upper n rule: canonicalNat_cases)
  case U
  then have "n - 32 < 97 \<or> 122 < n - 32" by arith
  with U show ?thesis by (simp add: canonicalNat_U canonicalNat_O1)
next
  case L
  then have "n + 32 < 65 \<or> 90 < n + 32" by arith
  with L show ?thesis by (simp add: canonicalNat_L canonicalNat_O2)
next
  case O1
  then show ?thesis by (simp add: canonicalNat_O1)
next
  case O2
  then show ?thesis by (simp add: canonicalNat_O2)
qed

lemma canonicalByte_nat: "canonicalByte upper c = char_of (canonicalNat upper (of_char c))"
  by (simp add: canonicalByte_def canonicalNat_def Let_def)

lemma of_char_canonicalByte:
  "(of_char (canonicalByte upper c) :: nat) = canonicalNat upper (of_char c)"
proof -
  have "canonicalNat upper (of_char c) < 256" by (rule canonicalNat_less) simp
  then show ?thesis by (simp add: canonicalByte_nat)
qed

lemma canonicalByte_idem: "canonicalByte upper (canonicalByte upper c) = canonicalByte upper c"
  by (simp add: canonicalByte_nat [of upper "canonicalByte upper c"] of_char_canonicalByte
        canonicalNat_idem) (simp add: canonicalByte_nat)

lemma canonicalLoop_idem: "canonicalLoop upper (canonicalLoop upper s) = canonicalLoop upper s"
  by (induction s arbitrary: upper) (simp_all add: Let_def canonicalByte_idem)

lemma validHeaderFieldByte_letter:
  "(65 \<le> (of_char c :: nat) \<and> (of_char c :: nat) \<le> 90)
     \<or> (97 \<le> (of_char c :: nat) \<and> (of_char c :: nat) \<le> 122)
   \<Longrightarrow> validHeaderFieldByte c"
  by (auto simp: validHeaderFieldByte_def Let_def)

lemma valid_canonicalByte: "validHeaderFieldByte (canonicalByte upper c) = validHeaderFieldByte c"
proof -
  define n where "n = (of_char c :: nat)"
  have oc: "(of_char (canonicalByte upper c) :: nat) = canonicalNat upper n"
    by (simp add: of_char_canonicalByte n_def)
  show ?thesis
  proof (cases upper n rule: canonicalNat_cases)
    case U
    then have "65 \<le> canonicalNat upper n \<and> canonicalNat upper n \<le> 90"
      by (simp add: canonicalNat_U) arith
    then have "validHeaderFieldByte (canonicalByte upper c)"
      by (intro validHeaderFieldByte_letter) (simp add: oc)
    moreover have "validHeaderFieldByte c"
      using U by (intro validHeaderFieldByte_letter) (simp add: n_def)
    ultimately show ?thesis by simp
  next
    case L
    then have "97 \<le> canonicalNat upper n \<and> canonicalNat upper n \<le> 122"
      by (simp add: canonicalNat_L)
    then have "validHeaderFieldByte (canonicalByte upper c)"
      by (intro validHeaderFieldByte_letter) (simp add: oc)
    moreover have "validHeaderFieldByte c"
      using L by (intro validHeaderFieldByte_letter) (simp add: n_def)
    ultimately show ?thesis by simp
  next
    case O1
    then have "canonicalByte upper c = c"
      by (simp add: canonicalByte_nat n_def [symmetric] canonicalNat_O1) (simp add: n_def)
    then show ?thesis by simp
  next
    case O2
    then have "canonicalByte upper c = c"
      by (simp add: canonicalByte_nat n_def [symmetric] canonicalNat_O2) (simp add: n_def)
    then show ?thesis by simp
  qed
qed

lemma valid_canonicalLoop:
  "list_all validHeaderFieldByte (canonicalLoop upper s) = list_all validHeaderFieldByte s"
  by (induction s arbitrary: upper) (simp_all add: Let_def valid_canonicalByte)

lemma Canonical_idem: "CanonicalMIMEHeaderKey (CanonicalMIMEHeaderKey s) = CanonicalMIMEHeaderKey s"
  by (simp add: CanonicalMIMEHeaderKey_def valid_canonicalLoop canonicalLoop_idem)

lemma lowerByte_id:
  "\<not> (65 \<le> (of_char d :: nat) \<and> (of_char d :: nat) \<le> 90) \<Longrightarrow> lowerByte d = d"
  by (auto simp: lowerByte_def Let_def)

lemma lowerByte_letter:
  "65 \<le> (of_char d :: nat) \<and> (of_char d :: nat) \<le> 90 \<Longrightarrow>
   lowerByte d = char_of ((of_char d :: nat) + 32)"
  by (auto simp: lowerByte_def Let_def)

lemma lowerByte_canonicalByte: "lowerByte (canonicalByte upper c) = lowerByte c"
proof -
  define n where "n = (of_char c :: nat)"
  have oc: "(of_char (canonicalByte upper c) :: nat) = canonicalNat upper n"
    by (simp add: of_char_canonicalByte n_def)
  have c: "char_of n = c" by (simp add: n_def)
  show ?thesis
  proof (cases upper n rule: canonicalNat_cases)
    case U
    then have cn: "canonicalNat upper n = n - 32" by (simp add: canonicalNat_U)
    have r: "65 \<le> n - 32 \<and> n - 32 \<le> 90" "n - 32 + 32 = n" "\<not> (65 \<le> n \<and> n \<le> 90)"
      using U by arith+
    have "65 \<le> (of_char (canonicalByte upper c) :: nat) \<and> (of_char (canonicalByte upper c) :: nat) \<le> 90"
      using r(1) unfolding cn [symmetric] oc [symmetric] by assumption
    then have "lowerByte (canonicalByte upper c) = char_of ((of_char (canonicalByte upper c) :: nat) + 32)"
      by (rule lowerByte_letter)
    also have "\<dots> = c" by (simp only: oc cn r(2) c)
    also have "\<dots> = lowerByte c"
      using r(3) unfolding n_def by (rule lowerByte_id [symmetric])
    finally show ?thesis .
  next
    case L
    then have cn: "canonicalNat upper n = n + 32" by (simp add: canonicalNat_L)
    have r: "\<not> (65 \<le> n + 32 \<and> n + 32 \<le> 90)" using L by arith
    have "lowerByte (canonicalByte upper c) = canonicalByte upper c"
      using r unfolding cn [symmetric] oc [symmetric] by (rule lowerByte_id)
    also have "\<dots> = char_of (n + 32)" by (simp only: canonicalByte_nat n_def [symmetric] cn)
    also have "\<dots> = lowerByte c"
    proof -
      have "65 \<le> (of_char c :: nat) \<and> (of_char c :: nat) \<le> 90"
        using L unfolding n_def by simp
      then have "lowerByte c = char_of ((of_char c :: nat) + 32)" by (rule lowerByte_letter)
      then show ?thesis unfolding n_def by simp
    qed
    finally show ?thesis .
  next
    case O1
    then have "canonicalByte upper c = c"
      by (simp add: canonicalByte_nat n_def [symmetric] canonicalNat_O1) (simp add: n_def)
    then show ?thesis by simp
  next
    case O2
    then have "canonicalByte upper c = c"
      by (simp add: canonicalByte_nat n_def [symmetric] canonicalNat_O2) (simp add: n_def)
    then show ?thesis by simp
  qed
qed

lemma ToLower_canonicalLoop: "ToLower (canonicalLoop upper s) = ToLower s"
  by (induction s arbitrary: upper) (simp_all add: ToLower_def Let_def lowerByte_canonicalByte)

lemma ToLower_Canonical: "ToLower (CanonicalMIMEHeaderKey s) = ToLower s"
  by (simp add: CanonicalMIMEHeaderKey_def ToLower_canonicalLoop)

subsection \<open>The Status line never becomes a header\<close>

lemma headerLine_no_status:
  assumes "\<And>k. ToLower k = ''status'' \<Longrightarrow> fst st k = None" and "ToLower k = ''status''"
  shows "fst (headerLine line st) k = None"
proof -
  have "\<And>key. ToLower key \<noteq> ''status'' \<Longrightarrow> CanonicalMIMEHeaderKey key \<noteq> k"
    using assms(2) ToLower_Canonical by auto
  then show ?thesis
    using assms by (auto simp: headerLine_def Let_def Header_Add_def split: option.splits)
qed

lemma loop_no_status:
  "parseWindowsHeaders_loop st buf = Inr (h, s, b) \<Longrightarrow>
   (\<And>k. ToLower k = ''status'' \<Longrightarrow> fst st k = None) \<Longrightarrow>
   ToLower k = ''status'' \<Longrightarrow> h k = None"
proof (induction st buf rule: parseWindowsHeaders_loop.induct)
  case (1 st buf)
  have a: "(case readWindowsLine buf of
              Inl err \<Rightarrow> Inl (HeaderReadError err)
            | Inr (line, buf') \<Rightarrow>
                if length line = 0 then Inr (fst st, snd st, buf')
                else parseWindowsHeaders_loop (headerLine line st) buf') = Inr (h, s, b)"
    using "1.prems"(1) by (subst (asm) parseWindowsHeaders_loop.simps)
  show ?case
  proof (cases "readWindowsLine buf")
    case (Inl err)
    with a show ?thesis by simp
  next
    case (Inr x)
    obtain line buf' where x: "x = (line, buf')" by (cases x)
    show ?thesis
    proof (cases "length line = 0")
      case True
      with a Inr x have "h = fst st" by simp
      then show ?thesis using "1.prems"(2,3) by simp
    next
      case False
      with a Inr x have p: "parseWindowsHeaders_loop (headerLine line st) buf' = Inr (h, s, b)"
        by simp
      have n: "\<And>k. ToLower k = ''status'' \<Longrightarrow> fst (headerLine line st) k = None"
        using "1.prems"(2) by (rule headerLine_no_status)
      show ?thesis by (rule "1.IH" [OF Inr x [symmetric] False p n "1.prems"(3)])
    qed
  qed
qed

lemma headerLine_Add:
  assumes "SplitN2 line = [k, v]" and "TrimSpace k = key" and "TrimSpace v = val"
    and "ToLower key \<noteq> ''status''" and "CanonicalMIMEHeaderKey key = ck"
  shows "headerLine line (h, s) = (h(ck \<mapsto> (case h ck of None \<Rightarrow> [] | Some vs \<Rightarrow> vs) @ [val]), s)"
  using assms by (simp add: headerLine_def Let_def Header_Add_def)

text \<open>
  C10. Whatever the subprocess writes, the header mapping that \<open>parseWindowsHeaders\<close>
  returns has no entry under a key that is \<open>status\<close> in lower case, so none under
  \<open>Status\<close>: a line with such a key goes to the status branch also when its value does
  not parse, and the key that \<open>Header.Add\<close> stores differs from the line's key in letter
  case only.
\<close>

theorem status_never_in_headers:
  assumes "parseWindowsHeaders reader = Inr (headers, statusCode, body)"
    and "ToLower k = ''status''"
  shows "headers k = None"
  using assms(1) unfolding parseWindowsHeaders_def
  by (rule loop_no_status) (simp_all add: assms(2))

theorem status_never_in_headers_witness:
  "parseWindowsHeaders (''Status: abc'' @ [LF] @ ''X-a: 1'' @ [LF, LF], EOF)
     = Inr ([''X-A'' \<mapsto> [''1'']], 200, ([], EOF)) \<and>
   ToLower ''Status'' = ''status'' \<and>
   [''X-A'' \<mapsto> [''1'']] ''Status'' = None"
proof -
  have r1: "readWindowsLine (''Status: abc'' @ [LF] @ ''X-a: 1'' @ [LF, LF], EOF)
              = Inr (''Status: abc'', (''X-a: 1'' @ [LF, LF], EOF))"
    by (simp add: readWindowsLine_def)
  have r2: "readWindowsLine (''X-a: 1'' @ [LF, LF], EOF) = Inr (''X-a: 1'', ([LF], EOF))"
    by (simp add: readWindowsLine_def)
  have s1: "SplitN2 ''Status: abc'' = [''Status'', '' abc'']" by (simp add: SplitN2_def)
  have s2: "SplitN2 ''X-a: 1'' = [''X-a'', '' 1'']" by (simp add: SplitN2_def)
  have t: "ToLower (TrimSpace ''Status'') = ''status''" "TrimSpace '' abc'' = ''abc''"
    "Atoi ''abc'' = None" "TrimSpace ''X-a'' = ''X-a''" "TrimSpace '' 1'' = ''1''"
    "ToLower ''X-a'' \<noteq> ''status''" "CanonicalMIMEHeaderKey ''X-a'' = ''X-A''"
    by code_simp+
  have h1: "headerLine ''Status: abc'' (Map.empty, 200) = (Map.empty, 200)"
    using s1 t(1,2,3) by (simp add: headerLine_def)
  have h2: "headerLine ''X-a: 1'' (Map.empty, 200) = ([''X-A'' \<mapsto> [''1'']], 200)"
    using headerLine_Add [OF s2 t(4,5,6,7), of Map.empty 200] by simp
  have p: "parseWindowsHeaders (''Status: abc'' @ [LF] @ ''X-a: 1'' @ [LF, LF], EOF)
             = Inr ([''X-A'' \<mapsto> [''1'']], 200, ([], EOF))"
    unfolding parseWindowsHeaders_def
    by (simp only: parse_step [OF r1] parse_step [OF r2] h1 h2 parse_blank
          list.distinct not_False_eq_True fst_conv snd_conv)
  have l: "ToLower ''Status'' = ''status''" by code_simp
  show ?thesis
    by (intro conjI) (rule p, rule l, rule status_never_in_headers [OF p l])
qed

subsection \<open>Header blocks\<close>

lemma readWindowsLine_loop_line:
  "LF \<notin> set l \<Longrightarrow> CR \<notin> set l \<Longrightarrow> t \<in> set lineTerminators \<Longrightarrow> rest \<noteq> [] \<Longrightarrow>
   readWindowsLine_loop acc (l @ t @ rest) e = Inr (acc @ l, (rest, e))"
proof (induction l arbitrary: acc)
  case Nil
  then obtain x xs where "rest = x # xs" by (cases rest) auto
  with Nil show ?case by (auto simp: lineTerminators_def)
next
  case (Cons b l)
  then have "b \<noteq> LF" "b \<noteq> CR" "LF \<notin> set l" "CR \<notin> set l" by auto
  then show ?case using Cons.IH [of "acc @ [b]"] Cons.prems(3,4) by simp
qed

lemma readWindowsLine_line:
  assumes "outputLine l" and "rest \<noteq> []"
  shows "readWindowsLine (fst l @ snd l @ rest, e) = Inr (fst l, (rest, e))"
  using readWindowsLine_loop_line [of "fst l" "snd l" rest "[]" e] assms
  by (simp add: readWindowsLine_def outputLine_def)

lemma readWindowsLine_blank:
  assumes "blankLine tb body"
  shows "readWindowsLine (tb @ body, e) = Inr ([], (body, e))"
proof -
  consider "tb = [LF]" | "tb = [CR, CR, LF]" | "tb = [CR, LF]" "body \<noteq> []"
    using assms by (auto simp: blankLine_def)
  then show ?thesis
  proof cases
    case 1
    then show ?thesis by (simp add: readWindowsLine_def)
  next
    case 2
    then show ?thesis by (simp add: readWindowsLine_def)
  next
    case 3
    then obtain x xs where "body = x # xs" by (cases body) auto
    with 3 show ?thesis by (simp add: readWindowsLine_def)
  qed
qed

lemma blankLine_nonempty: "blankLine tb body \<Longrightarrow> tb \<noteq> []"
  by (auto simp: blankLine_def)

lemma parse_block:
  assumes "blankLine tb body"
  shows "list_all outputLine ls \<Longrightarrow>
   parseWindowsHeaders_loop st (headerBlock ls tb @ body, e)
     = (let st' = fold (\<lambda>l. headerLine (fst l)) ls st in Inr (fst st', snd st', (body, e)))"
proof (induction ls arbitrary: st)
  case Nil
  show ?case
    by (subst parseWindowsHeaders_loop.simps)
       (simp add: headerBlock_def readWindowsLine_blank [OF assms])
next
  case (Cons l ls)
  then have wf: "outputLine l" and wfs: "list_all outputLine ls" by simp_all
  have ne: "headerBlock ls tb @ body \<noteq> []"
    using blankLine_nonempty [OF assms] by (simp add: headerBlock_def)
  have eq: "headerBlock (l # ls) tb @ body = fst l @ snd l @ (headerBlock ls tb @ body)"
    by (simp add: headerBlock_def)
  have l: "fst l \<noteq> []" using wf by (simp add: outputLine_def)
  have "parseWindowsHeaders_loop st (headerBlock (l # ls) tb @ body, e)
          = parseWindowsHeaders_loop (headerLine (fst l) st) (headerBlock ls tb @ body, e)"
    unfolding eq
    by (rule parse_step [OF readWindowsLine_line [OF wf ne] l])
  then show ?case using Cons.IH [OF wfs, of "headerLine (fst l) st"] by simp
qed

lemma SplitN2_colon:
  "CHR '':'' \<in> set text \<Longrightarrow> SplitN2 text = [lineName text, lineValue text]"
  by (simp add: SplitN2_def lineName_def lineValue_def)

lemma lineName_lineValue:
  "CHR '':'' \<notin> set name \<Longrightarrow>
   lineName (name @ '':'' @ val) = name \<and> lineValue (name @ '':'' @ val) = val"
proof -
  assume a: "CHR '':'' \<notin> set name"
  then have n: "\<And>x. x \<in> set name \<Longrightarrow> x \<noteq> CHR '':''" by auto
  have "takeWhile (\<lambda>c. c \<noteq> CHR '':'') (name @ CHR '':'' # val) = name"
    using n by (simp add: takeWhile_append2)
  moreover have "dropWhile (\<lambda>c. c \<noteq> CHR '':'') (name @ CHR '':'' # val) = CHR '':'' # val"
    using n by (simp add: dropWhile_append2)
  ultimately show ?thesis by (simp add: lineName_def lineValue_def)
qed

lemma headerLine_text:
  "fst (headerLine text (h, s)) =
     (if CHR '':'' \<in> set text \<and> ToLower (TrimSpace (lineName text)) \<noteq> ''status''
      then Header_Add h (TrimSpace (lineName text)) (TrimSpace (lineValue text))
      else h)"
proof (cases "CHR '':'' \<in> set text")
  case True
  then show ?thesis
    by (simp add: headerLine_def Let_def SplitN2_colon split: option.splits)
next
  case False
  then show ?thesis by (simp add: headerLine_def SplitN2_no_colon)
qed

lemma headerLine_no_colon: "CHR '':'' \<notin> set text \<Longrightarrow> headerLine text st = st"
  by (simp add: headerLine_def SplitN2_no_colon)

lemma fold_headerLine:
  "fst (fold (\<lambda>l. headerLine (fst l)) ls (h, s)) k
     = (if valuesOf k ls = [] then h k
        else Some ((case h k of None \<Rightarrow> [] | Some vs \<Rightarrow> vs) @ valuesOf k ls))"
proof (induction ls arbitrary: h s)
  case Nil
  then show ?case by (simp add: valuesOf_def)
next
  case (Cons l ls)
  obtain h' s' where st: "headerLine (fst l) (h, s) = (h', s')"
    by (cases "headerLine (fst l) (h, s)")
  have h': "h' = (if CHR '':'' \<in> set (fst l) \<and> ToLower (TrimSpace (lineName (fst l))) \<noteq> ''status''
                  then Header_Add h (TrimSpace (lineName (fst l))) (TrimSpace (lineValue (fst l)))
                  else h)"
    using headerLine_text [of "fst l" h s] st by simp
  show ?case
    using Cons.IH [of h' s']
    by (auto simp: st h' valuesOf_def Header_Add_def Let_def split: option.splits)
qed

lemma fold_Header_Add:
  "fold (\<lambda>val rwh. Header_Add rwh key val) vs rwh =
     (if vs = [] then rwh
      else rwh(CanonicalMIMEHeaderKey key \<mapsto>
                 (case rwh (CanonicalMIMEHeaderKey key) of None \<Rightarrow> [] | Some ws \<Rightarrow> ws) @ vs))"
  by (induction vs arbitrary: rwh) (auto simp: Header_Add_def Let_def split: option.splits)

lemma setHeaders_Cons:
  "setHeaders headers (key # order) rw =
     setHeaders headers order
       (fold (\<lambda>val rwh. Header_Add rwh key val) (case headers key of None \<Rightarrow> [] | Some vs \<Rightarrow> vs) rw)"
  by (simp add: setHeaders_def)

lemma setHeaders_canonical:
  assumes "distinct order" and "\<And>k. k \<in> set order \<Longrightarrow> CanonicalMIMEHeaderKey k = k"
    and "\<And>k. headers k \<noteq> Some []"
  shows "setHeaders headers order rw k = (if k \<in> set order then addValues headers rw k else rw k)"
  using assms(1,2)
proof (induction order arbitrary: rw)
  case Nil
  then show ?case by (simp add: setHeaders_def)
next
  case (Cons key order)
  define rw1 where "rw1 = fold (\<lambda>val rwh. Header_Add rwh key val)
                            (case headers key of None \<Rightarrow> [] | Some vs \<Rightarrow> vs) rw"
  have ck: "CanonicalMIMEHeaderKey key = key" using Cons.prems(2) by simp
  have rw1: "rw1 = (case headers key of None \<Rightarrow> rw
                    | Some vs \<Rightarrow> rw(key \<mapsto> (case rw key of None \<Rightarrow> [] | Some ws \<Rightarrow> ws) @ vs))"
    using assms(3) [of key] by (simp add: rw1_def fold_Header_Add ck split: option.splits)
  have other: "\<And>k'. k' \<noteq> key \<Longrightarrow> rw1 k' = rw k'" by (simp add: rw1 split: option.splits)
  have this_key: "rw1 key = addValues headers rw key"
    by (simp add: rw1 addValues_def split: option.splits)
  have IH: "setHeaders headers order rw1 k = (if k \<in> set order then addValues headers rw1 k else rw1 k)"
    using Cons.IH [of rw1] Cons.prems by simp
  have notin: "key \<notin> set order" using Cons.prems(1) by simp
  show ?case
  proof (cases "k = key")
    case True
    then show ?thesis using IH notin this_key by (simp add: setHeaders_Cons rw1_def [symmetric])
  next
    case False
    then have "rw1 k = rw k" by (rule other)
    then have "addValues headers rw1 k = addValues headers rw k"
      by (simp add: addValues_def split: option.splits)
    then show ?thesis using IH False other by (simp add: setHeaders_Cons rw1_def [symmetric])
  qed
qed

lemma setHeaders_addValues:
  assumes "distinct order" and "set order = dom headers"
    and "\<And>k. k \<in> dom headers \<Longrightarrow> CanonicalMIMEHeaderKey k = k"
    and "\<And>k. headers k \<noteq> Some []"
  shows "setHeaders headers order rw = addValues headers rw"
proof
  fix k
  have "setHeaders headers order rw k = (if k \<in> set order then addValues headers rw k else rw k)"
    using assms by (intro setHeaders_canonical) auto
  moreover have "k \<notin> set order \<Longrightarrow> addValues headers rw k = rw k"
    using assms(2) by (auto simp: addValues_def dom_def split: option.splits)
  ultimately show "setHeaders headers order rw k = addValues headers rw k" by simp
qed

lemma headersOf_canonical: "k \<in> dom (headersOf ls) \<Longrightarrow> CanonicalMIMEHeaderKey k = k"
proof -
  assume "k \<in> dom (headersOf ls)"
  then have "valuesOf k ls \<noteq> []" by (auto simp: headersOf_def dom_def split: if_splits)
  then obtain l where "CanonicalMIMEHeaderKey (TrimSpace (lineName (fst l))) = k"
    by (auto simp: valuesOf_def filter_empty_conv)
  then show ?thesis using Canonical_idem by auto
qed

lemma headersOf_nonempty: "headersOf ls k \<noteq> Some []"
  by (simp add: headersOf_def)

text \<open>
  C4, as the code has it. For a block of lines, each with any of the three line
  terminators, closed by a blank line (a line feed, a doubled carriage return with a
  line feed, or a carriage return with a line feed and at least one byte behind it),
  \<open>parseWindowsHeaders\<close> returns the mapping that holds under every key the trimmed
  values of the lines with that key, all of them and in the order of the lines, and
  returns as body the reader behind the blank line. The loop of \<open>ServeHTTP\<close>, in
  whatever order it visits the keys, appends these values in that order to the values
  the response has under the key. The mapping keeps no order of its keys.
\<close>

theorem header_values_preserved:
  assumes "list_all outputLine ls" and "blankLine tb body"
  shows "(\<exists>statusCode. parseWindowsHeaders (headerBlock ls tb @ body, e)
             = Inr (headersOf ls, statusCode, (body, e))) \<and>
         (distinct order \<and> set order = dom (headersOf ls) \<longrightarrow>
            setHeaders (headersOf ls) order rwHeader = addValues (headersOf ls) rwHeader)"
proof -
  have "fst (fold (\<lambda>l. headerLine (fst l)) ls (Map.empty, 200)) = headersOf ls"
    using fold_headerLine [of ls Map.empty 200] by (auto simp: headersOf_def)
  then have "\<exists>statusCode. parseWindowsHeaders (headerBlock ls tb @ body, e)
             = Inr (headersOf ls, statusCode, (body, e))"
    using parse_block [OF assms(2) assms(1), of "(Map.empty, 200)" e]
    by (simp add: parseWindowsHeaders_def Let_def)
  moreover have "distinct order \<and> set order = dom (headersOf ls) \<longrightarrow>
            setHeaders (headersOf ls) order rwHeader = addValues (headersOf ls) rwHeader"
    using setHeaders_addValues [of order "headersOf ls" rwHeader]
      headersOf_canonical [of _ ls] headersOf_nonempty [of ls] by blast
  ultimately show ?thesis by blast
qed

theorem header_values_preserved_witness:
  "list_all outputLine [(''X-a: 1'', [CR, LF]), (''Y:2'', [LF]), (''x-A:3 '', [CR, CR, LF])] \<and> blankLine [CR, LF] ''hi'' \<and>
   (\<exists>statusCode. parseWindowsHeaders (headerBlock [(''X-a: 1'', [CR, LF]), (''Y:2'', [LF]), (''x-A:3 '', [CR, CR, LF])] [CR, LF] @ ''hi'', EOF)
       = Inr (headersOf [(''X-a: 1'', [CR, LF]), (''Y:2'', [LF]), (''x-A:3 '', [CR, CR, LF])], statusCode, (''hi'', EOF))) \<and>
   headersOf [(''X-a: 1'', [CR, LF]), (''Y:2'', [LF]), (''x-A:3 '', [CR, CR, LF])] ''X-A'' = Some [''1'', ''3''] \<and>
   distinct [''Y'', ''X-A''] \<and> set [''Y'', ''X-A''] = dom (headersOf [(''X-a: 1'', [CR, LF]), (''Y:2'', [LF]), (''x-A:3 '', [CR, CR, LF])]) \<and>
   setHeaders (headersOf [(''X-a: 1'', [CR, LF]), (''Y:2'', [LF]), (''x-A:3 '', [CR, CR, LF])]) [''Y'', ''X-A''] Map.empty = addValues (headersOf [(''X-a: 1'', [CR, LF]), (''Y:2'', [LF]), (''x-A:3 '', [CR, CR, LF])]) Map.empty"
proof -
  have wf: "list_all outputLine [(''X-a: 1'', [CR, LF]), (''Y:2'', [LF]), (''x-A:3 '', [CR, CR, LF])]"
    by (simp add: outputLine_def lineTerminators_def)
  have bl: "blankLine [CR, LF] ''hi''" by (simp add: blankLine_def)
  have n: "lineName ''X-a: 1'' = ''X-a''" "lineValue ''X-a: 1'' = '' 1''"
    "lineName ''Y:2'' = ''Y''" "lineValue ''Y:2'' = ''2''"
    "lineName ''x-A:3 '' = ''x-A''" "lineValue ''x-A:3 '' = ''3 ''"
    by (simp_all add: lineName_def lineValue_def)
  have t: "TrimSpace ''X-a'' = ''X-a''" "TrimSpace ''Y'' = ''Y''" "TrimSpace ''x-A'' = ''x-A''"
    "TrimSpace '' 1'' = ''1''" "TrimSpace ''2'' = ''2''" "TrimSpace ''3 '' = ''3''"
    "ToLower ''X-a'' \<noteq> ''status''" "ToLower ''Y'' \<noteq> ''status''" "ToLower ''x-A'' \<noteq> ''status''"
    "CanonicalMIMEHeaderKey ''X-a'' = ''X-A''" "CanonicalMIMEHeaderKey ''Y'' = ''Y''"
    "CanonicalMIMEHeaderKey ''x-A'' = ''X-A''"
    by code_simp+
  have vo: "\<And>k. valuesOf k [(''X-a: 1'', [CR, LF]), (''Y:2'', [LF]), (''x-A:3 '', [CR, CR, LF])] =
              (if k = ''X-A'' then [''1'', ''3''] else if k = ''Y'' then [''2''] else [])"
    by (auto simp: valuesOf_def n t)
  have d: "set [''Y'', ''X-A''] = dom (headersOf [(''X-a: 1'', [CR, LF]), (''Y:2'', [LF]), (''x-A:3 '', [CR, CR, LF])])"
    by (auto simp: headersOf_def vo dom_def split: if_splits)
  have x: "headersOf [(''X-a: 1'', [CR, LF]), (''Y:2'', [LF]), (''x-A:3 '', [CR, CR, LF])] ''X-A'' = Some [''1'', ''3'']"
    by (simp add: headersOf_def vo)
  have di: "distinct [''Y'', ''X-A'']" by simp
  note th = header_values_preserved [OF wf bl, of EOF "[''Y'', ''X-A'']" Map.empty]
  show ?thesis
    using wf bl x di d th by blast
qed

text \<open>
  C6. In a block of lines closed by a blank line, a line without colon is skipped: the
  parser returns no error, and it returns the headers, the status code and the body
  that it returns for the block without that line; the headers are the mapping of the
  other lines.
\<close>

theorem line_without_colon_skipped:
  assumes "list_all outputLine ls1" and "outputLine m" and "CHR '':'' \<notin> set (fst m)"
    and "list_all outputLine ls2" and "blankLine tb body"
  shows "\<exists>headers statusCode.
           parseWindowsHeaders (headerBlock (ls1 @ m # ls2) tb @ body, e)
             = Inr (headers, statusCode, (body, e)) \<and>
           parseWindowsHeaders (headerBlock (ls1 @ ls2) tb @ body, e)
             = Inr (headers, statusCode, (body, e)) \<and>
           headers = headersOf (ls1 @ ls2)"
proof -
  have all: "list_all outputLine (ls1 @ m # ls2)" "list_all outputLine (ls1 @ ls2)"
    using assms(1,2,4) by simp_all
  have same: "fold (\<lambda>l. headerLine (fst l)) (ls1 @ m # ls2) (Map.empty, 200)
                = fold (\<lambda>l. headerLine (fst l)) (ls1 @ ls2) (Map.empty, 200)"
    using assms(3) by (simp add: headerLine_no_colon)
  obtain h s where st: "fold (\<lambda>l. headerLine (fst l)) (ls1 @ ls2) (Map.empty, 200) = (h, s)"
    by (cases "fold (\<lambda>l. headerLine (fst l)) (ls1 @ ls2) (Map.empty, 200)")
  have "h = headersOf (ls1 @ ls2)"
    using fold_headerLine [of "ls1 @ ls2" Map.empty 200] st by (auto simp: headersOf_def)
  moreover have "parseWindowsHeaders (headerBlock (ls1 @ m # ls2) tb @ body, e)
                   = Inr (h, s, (body, e))"
    using parse_block [OF assms(5) all(1), of "(Map.empty, 200)" e] same st
    by (simp add: parseWindowsHeaders_def Let_def)
  moreover have "parseWindowsHeaders (headerBlock (ls1 @ ls2) tb @ body, e)
                   = Inr (h, s, (body, e))"
    using parse_block [OF assms(5) all(2), of "(Map.empty, 200)" e] st
    by (simp add: parseWindowsHeaders_def Let_def)
  ultimately show ?thesis by blast
qed

theorem line_without_colon_skipped_witness:
  "parseWindowsHeaders (''garbage'' @ [LF] @ ''X: 1'' @ [CR, LF] @ [CR, LF] @ ''hi'', EOF)
     = Inr ([''X'' \<mapsto> [''1'']], 200, (''hi'', EOF))"
proof -
  have r1: "readWindowsLine (''X: 1'' @ [CR, LF] @ [CR, LF] @ ''hi'', EOF)
              = Inr (''X: 1'', ([CR, LF] @ ''hi'', EOF))"
    by (simp add: readWindowsLine_def)
  have s2: "SplitN2 ''X: 1'' = [''X'', '' 1'']" by (simp add: SplitN2_def)
  have t: "TrimSpace ''X'' = ''X''" "TrimSpace '' 1'' = ''1''"
    "ToLower ''X'' \<noteq> ''status''" "CanonicalMIMEHeaderKey ''X'' = ''X''"
    by code_simp+
  have h2: "headerLine ''X: 1'' (Map.empty, 200) = ([''X'' \<mapsto> [''1'']], 200)"
    using headerLine_Add [OF s2 t, of Map.empty 200] by simp
  have e: "parseWindowsHeaders_loop ([''X'' \<mapsto> [''1'']], 200) ([CR, LF] @ ''hi'', EOF)
             = Inr ([''X'' \<mapsto> [''1'']], 200, (''hi'', EOF))"
    by (subst parseWindowsHeaders_loop.simps) (simp add: readWindowsLine_def)
  have without: "parseWindowsHeaders (''X: 1'' @ [CR, LF] @ [CR, LF] @ ''hi'', EOF)
                   = Inr ([''X'' \<mapsto> [''1'']], 200, (''hi'', EOF))"
    unfolding parseWindowsHeaders_def
    by (simp only: parse_step [OF r1] h2 e list.distinct not_False_eq_True)
  have b1: "headerBlock ([] @ (''garbage'', [LF]) # [(''X: 1'', [CR, LF])]) [CR, LF] @ ''hi''
              = ''garbage'' @ [LF] @ ''X: 1'' @ [CR, LF] @ [CR, LF] @ ''hi''"
    and b2: "headerBlock ([] @ [(''X: 1'', [CR, LF])]) [CR, LF] @ ''hi''
              = ''X: 1'' @ [CR, LF] @ [CR, LF] @ ''hi''"
    by (simp_all add: headerBlock_def)
  have "\<exists>headers statusCode.
           parseWindowsHeaders (''garbage'' @ [LF] @ ''X: 1'' @ [CR, LF] @ [CR, LF] @ ''hi'', EOF)
             = Inr (headers, statusCode, (''hi'', EOF)) \<and>
           parseWindowsHeaders (''X: 1'' @ [CR, LF] @ [CR, LF] @ ''hi'', EOF)
             = Inr (headers, statusCode, (''hi'', EOF)) \<and>
           headers = headersOf ([] @ [(''X: 1'', [CR, LF])])"
    using line_without_colon_skipped [of "[]" "(''garbage'', [LF])" "[(''X: 1'', [CR, LF])]"
        "[CR, LF]" "''hi''" EOF]
    unfolding b1 b2
    by (simp add: outputLine_def lineTerminators_def blankLine_def)
  then obtain headers statusCode where
    a: "parseWindowsHeaders (''garbage'' @ [LF] @ ''X: 1'' @ [CR, LF] @ [CR, LF] @ ''hi'', EOF)
          = Inr (headers, statusCode, (''hi'', EOF))"
    and b: "parseWindowsHeaders (''X: 1'' @ [CR, LF] @ [CR, LF] @ ''hi'', EOF)
          = Inr (headers, statusCode, (''hi'', EOF))"
    by blast
  from b without have "headers = [''X'' \<mapsto> [''1'']]" "statusCode = 200" by simp_all
  with a show ?thesis by simp
qed

text \<open>
  C4, as stated. Two blocks with the same two lines in opposite orders give the same
  mapping: an order of insertion of the keys is not in the result.
\<close>

theorem header_key_order_not_kept:
  "parseWindowsHeaders (''A: 1'' @ [LF] @ ''B: 2'' @ [LF, LF], EOF)
     = Inr ([''A'' \<mapsto> [''1''], ''B'' \<mapsto> [''2'']], 200, ([], EOF)) \<and>
   parseWindowsHeaders (''B: 2'' @ [LF] @ ''A: 1'' @ [LF, LF], EOF)
     = Inr ([''A'' \<mapsto> [''1''], ''B'' \<mapsto> [''2'']], 200, ([], EOF)) \<and>
   [''A'', ''B''] \<noteq> [''B'', ''A'']"
proof -
  have ra: "\<And>rest. readWindowsLine (''A: 1'' @ [LF] @ rest, EOF) = Inr (''A: 1'', (rest, EOF))"
    and rb: "\<And>rest. readWindowsLine (''B: 2'' @ [LF] @ rest, EOF) = Inr (''B: 2'', (rest, EOF))"
    by (simp_all add: readWindowsLine_def)
  have sa: "SplitN2 ''A: 1'' = [''A'', '' 1'']" and sb: "SplitN2 ''B: 2'' = [''B'', '' 2'']"
    by (simp_all add: SplitN2_def)
  have t: "TrimSpace ''A'' = ''A''" "TrimSpace '' 1'' = ''1''" "ToLower ''A'' \<noteq> ''status''"
    "CanonicalMIMEHeaderKey ''A'' = ''A''"
    "TrimSpace ''B'' = ''B''" "TrimSpace '' 2'' = ''2''" "ToLower ''B'' \<noteq> ''status''"
    "CanonicalMIMEHeaderKey ''B'' = ''B''"
    by code_simp+
  have ha: "\<And>h s. headerLine ''A: 1'' (h, s)
              = (h(''A'' \<mapsto> (case h ''A'' of None \<Rightarrow> [] | Some vs \<Rightarrow> vs) @ [''1'']), s)"
    by (rule headerLine_Add [OF sa t(1,2,3,4)])
  have hb: "\<And>h s. headerLine ''B: 2'' (h, s)
              = (h(''B'' \<mapsto> (case h ''B'' of None \<Rightarrow> [] | Some vs \<Rightarrow> vs) @ [''2'']), s)"
    by (rule headerLine_Add [OF sb t(5,6,7,8)])
  have ab: "parseWindowsHeaders (''A: 1'' @ [LF] @ ''B: 2'' @ [LF, LF], EOF)
              = Inr ([''A'' \<mapsto> [''1''], ''B'' \<mapsto> [''2'']], 200, ([], EOF))"
    unfolding parseWindowsHeaders_def
    using parse_step [OF ra [of "''B: 2'' @ [LF, LF]"], of "(Map.empty, 200)"]
      parse_step [OF rb [of "[LF]"], of "([''A'' \<mapsto> [''1'']], 200)"]
    by (simp add: ha hb parse_blank)
  have ba: "parseWindowsHeaders (''B: 2'' @ [LF] @ ''A: 1'' @ [LF, LF], EOF)
              = Inr ([''B'' \<mapsto> [''2''], ''A'' \<mapsto> [''1'']], 200, ([], EOF))"
    unfolding parseWindowsHeaders_def
    using parse_step [OF rb [of "''A: 1'' @ [LF, LF]"], of "(Map.empty, 200)"]
      parse_step [OF ra [of "[LF]"], of "([''B'' \<mapsto> [''2'']], 200)"]
    by (simp add: ha hb parse_blank)
  have tw: "[''B'' \<mapsto> [''2''], ''A'' \<mapsto> [''1'']] = [''A'' \<mapsto> [''1''], ''B'' \<mapsto> [''2'']]"
    by (rule fun_upd_twist) simp
  show ?thesis using ab ba tw by simp
qed

section \<open>Properties of the environment builder\<close>

lemma upperByte_hyphen: "upperByte c = CHR ''-'' \<longleftrightarrow> c = CHR ''-''"
proof
  assume a: "upperByte c = CHR ''-''"
  define n where "n = (of_char c :: nat)"
  have h: "(of_char (CHR ''-'') :: nat) = 45" by simp
  show "c = CHR ''-''"
  proof (cases "97 \<le> n \<and> n \<le> 122")
    case True
    then have u: "upperByte c = char_of (n - 32)" by (simp add: upperByte_def n_def)
    have "n - 32 < 256" using True by arith
    then have m: "(n - 32) mod 256 = n - 32" by simp
    have "(of_char (upperByte c) :: nat) = n - 32" by (simp add: u m)
    then have "n - 32 = 45" by (simp only: a h)
    with True have False by arith
    then show ?thesis ..
  next
    case False
    then have "upperByte c = c" by (auto simp: upperByte_def Let_def n_def)
    with a show ?thesis by simp
  qed
next
  assume "c = CHR ''-''"
  then show "upperByte c = CHR ''-''" by (simp add: upperByte_def)
qed

lemma upperByte_underscore: "upperByte (CHR ''_'') = CHR ''_''"
  by (simp add: upperByte_def)

lemma isASCII_ReplaceAll:
  "isASCII (ReplaceAll key (CHR ''-'') (CHR ''_'')) = isASCII key"
  by (induction key) (auto simp: isASCII_def ReplaceAll_def)

lemma ToUpper_ReplaceAll:
  "isASCII key \<Longrightarrow>
   ToUpper mapUpper (ReplaceAll key (CHR ''-'') (CHR ''_''))
     = ReplaceAll (map upperByte key) (CHR ''-'') (CHR ''_'')"
proof -
  assume "isASCII key"
  then have "ToUpper mapUpper (ReplaceAll key (CHR ''-'') (CHR ''_''))
               = map upperByte (ReplaceAll key (CHR ''-'') (CHR ''_''))"
    by (simp add: ToUpper_def isASCII_ReplaceAll)
  also have "\<dots> = ReplaceAll (map upperByte key) (CHR ''-'') (CHR ''_'')"
    by (induction key) (simp_all add: ReplaceAll_def upperByte_hyphen upperByte_underscore)
  finally show ?thesis .
qed

lemma httpName_no_hyphen: "CHR ''-'' \<notin> set (httpName key)"
  by (auto simp: httpName_def ReplaceAll_def)

lemma fold_http:
  "fold (\<lambda>key env.
           let values = (case Header req key of None \<Rightarrow> [] | Some vs \<Rightarrow> vs) in
           if length values > 0
           then env @ [''HTTP_'' @ ToUpper mapUpper (ReplaceAll key (CHR ''-'') (CHR ''_''))
                         @ ''='' @ values ! 0]
           else env) order env0
     = env0 @ map (\<lambda>key. ''HTTP_'' @ ToUpper mapUpper (ReplaceAll key (CHR ''-'') (CHR ''_''))
                            @ ''='' @ headerValues req key ! 0)
                (filter (\<lambda>key. headerValues req key \<noteq> []) order)"
  by (induction order arbitrary: env0) (simp_all add: Let_def headerValues_def)

lemma fold_inherit:
  "fold (\<lambda>key env. let val = getenv key in
           if val \<noteq> [] then env @ [key @ ''='' @ val] else env) ks env2
     = env2 @ map (\<lambda>key. key @ ''='' @ getenv key) (filter (\<lambda>key. getenv key \<noteq> []) ks)"
  by (induction ks arbitrary: env2) (simp_all add: Let_def)

lemma buildEnv_eq:
  "buildEnv h getenv mapUpper order req =
     fixedEnv req
     @ map (\<lambda>key. ''HTTP_'' @ ToUpper mapUpper (ReplaceAll key (CHR ''-'') (CHR ''_''))
                     @ ''='' @ headerValues req key ! 0)
         (filter (\<lambda>key. headerValues req key \<noteq> []) order)
     @ Env h
     @ map (\<lambda>key. key @ ''='' @ getenv key) (filter (\<lambda>key. getenv key \<noteq> []) (InheritEnv h))"
  unfolding buildEnv_def Let_def
  by (simp only: fold_http [unfolded Let_def] fold_inherit [unfolded Let_def] append_assoc)

lemma fixedEnv_keys:
  "map envKey (fixedEnv req) =
     [''REQUEST_METHOD'', ''SCRIPT_NAME'', ''PATH_INFO'', ''QUERY_STRING'', ''CONTENT_TYPE'',
      ''CONTENT_LENGTH'', ''SERVER_NAME'', ''SERVER_PORT'', ''SERVER_PROTOCOL'',
      ''SERVER_SOFTWARE'', ''GATEWAY_INTERFACE'', ''REMOTE_ADDR'', ''REMOTE_HOST'']"
  by (simp add: fixedEnv_def envKey_def)

lemma fixedEnv_length: "length (fixedEnv req) = 13"
  by (simp add: fixedEnv_def)

text \<open>
  C7. Let the loop over the request headers visit every key of the map once. After the
  fixed variables, \<open>buildEnv\<close> appends one entry for every header that has a value, and
  for no other key: its name is \<open>HTTP_\<close>, then the header name with hyphens replaced by
  underscores and the result in upper case, and its value is the first of the header's
  values. For a header name of ASCII bytes, as the names of a request that the server
  has read are, this is the name in upper case with hyphens replaced by underscores,
  and it contains no hyphen.
\<close>

theorem buildEnv_http_variables:
  assumes "distinct order" and "set order = dom (Header req)"
  shows "(let keys = filter (\<lambda>key. headerValues req key \<noteq> []) order in
          buildEnv h getenv mapUpper order req =
            fixedEnv req
            @ map (\<lambda>key. ''HTTP_'' @ ToUpper mapUpper (ReplaceAll key (CHR ''-'') (CHR ''_''))
                            @ ''='' @ headerValues req key ! 0) keys
            @ Env h
            @ map (\<lambda>key. key @ ''='' @ getenv key)
                (filter (\<lambda>key. getenv key \<noteq> []) (InheritEnv h)) \<and>
          distinct keys \<and> set keys = {key. headerValues req key \<noteq> []}) \<and>
         (isASCII k \<longrightarrow>
            ''HTTP_'' @ ToUpper mapUpper (ReplaceAll k (CHR ''-'') (CHR ''_'')) = httpName k \<and>
            CHR ''-'' \<notin> set (httpName k))"
proof -
  define keys where "keys = filter (\<lambda>key. headerValues req key \<noteq> []) order"
  have eq: "buildEnv h getenv mapUpper order req =
            fixedEnv req
            @ map (\<lambda>key. ''HTTP_'' @ ToUpper mapUpper (ReplaceAll key (CHR ''-'') (CHR ''_''))
                            @ ''='' @ headerValues req key ! 0) keys
            @ Env h
            @ map (\<lambda>key. key @ ''='' @ getenv key)
                (filter (\<lambda>key. getenv key \<noteq> []) (InheritEnv h))"
    by (simp only: buildEnv_eq keys_def [symmetric])
  have d: "distinct keys" using assms(1) by (simp add: keys_def)
  have "\<And>key. headerValues req key \<noteq> [] \<Longrightarrow> key \<in> set order"
    using assms(2) by (auto simp: headerValues_def dom_def split: option.splits)
  then have s: "set keys = {key. headerValues req key \<noteq> []}" by (auto simp: keys_def)
  have a: "isASCII k \<longrightarrow>
            ''HTTP_'' @ ToUpper mapUpper (ReplaceAll k (CHR ''-'') (CHR ''_'')) = httpName k \<and>
            CHR ''-'' \<notin> set (httpName k)"
    using httpName_no_hyphen [of k] by (simp add: httpName_def ToUpper_ReplaceAll)
  show ?thesis
    unfolding Let_def keys_def [symmetric] using eq d s a by blast
qed

theorem buildEnv_http_variables_witness:
  "buildEnv \<lparr>Path = ''/bin/app'', Root = ''/'', Dir = [], Args = [], Env = [], InheritEnv = []\<rparr> (\<lambda>key. []) (\<lambda>s. s) [''Accept'', ''X-Foo''] \<lparr>Method = ''GET'', URL_Path = ''/app'', URL_RawQuery = [], Header = [''X-Foo'' \<mapsto> [''bar''], ''Accept'' \<mapsto> [''a'', ''b'']], ContentLength = 0, TransferEncoding = [], Host = ''example.com'', Proto = ''HTTP/1.1'', RemoteAddr = ''192.0.2.1:5000'', TLS = False, Body = OriginalBody ([], EOF)\<rparr>
     = fixedEnv \<lparr>Method = ''GET'', URL_Path = ''/app'', URL_RawQuery = [], Header = [''X-Foo'' \<mapsto> [''bar''], ''Accept'' \<mapsto> [''a'', ''b'']], ContentLength = 0, TransferEncoding = [], Host = ''example.com'', Proto = ''HTTP/1.1'', RemoteAddr = ''192.0.2.1:5000'', TLS = False, Body = OriginalBody ([], EOF)\<rparr> @ [''HTTP_ACCEPT=a'', ''HTTP_X_FOO=bar''] \<and>
   ''HTTP-X-FOO'' \<notin> set (map envKey (buildEnv \<lparr>Path = ''/bin/app'', Root = ''/'', Dir = [], Args = [], Env = [], InheritEnv = []\<rparr> (\<lambda>key. []) (\<lambda>s. s) [''Accept'', ''X-Foo''] \<lparr>Method = ''GET'', URL_Path = ''/app'', URL_RawQuery = [], Header = [''X-Foo'' \<mapsto> [''bar''], ''Accept'' \<mapsto> [''a'', ''b'']], ContentLength = 0, TransferEncoding = [], Host = ''example.com'', Proto = ''HTTP/1.1'', RemoteAddr = ''192.0.2.1:5000'', TLS = False, Body = OriginalBody ([], EOF)\<rparr>))"
proof -
  have n: "httpName ''X-Foo'' = ''HTTP_X_FOO''" "httpName ''Accept'' = ''HTTP_ACCEPT''"
    "isASCII ''X-Foo''" "isASCII ''Accept''"
    by code_simp+
  have d: "dom [''X-Foo'' \<mapsto> [''bar''], ''Accept'' \<mapsto> [''a'', ''b'']] = {''X-Foo'', ''Accept''}"
    by auto
  have ex: "buildEnv \<lparr>Path = ''/bin/app'', Root = ''/'', Dir = [], Args = [], Env = [], InheritEnv = []\<rparr> (\<lambda>key. []) (\<lambda>s. s) [''Accept'', ''X-Foo''] \<lparr>Method = ''GET'', URL_Path = ''/app'', URL_RawQuery = [], Header = [''X-Foo'' \<mapsto> [''bar''], ''Accept'' \<mapsto> [''a'', ''b'']], ContentLength = 0, TransferEncoding = [], Host = ''example.com'', Proto = ''HTTP/1.1'', RemoteAddr = ''192.0.2.1:5000'', TLS = False, Body = OriginalBody ([], EOF)\<rparr>
     = fixedEnv \<lparr>Method = ''GET'', URL_Path = ''/app'', URL_RawQuery = [], Header = [''X-Foo'' \<mapsto> [''bar''], ''Accept'' \<mapsto> [''a'', ''b'']], ContentLength = 0, TransferEncoding = [], Host = ''example.com'', Proto = ''HTTP/1.1'', RemoteAddr = ''192.0.2.1:5000'', TLS = False, Body = OriginalBody ([], EOF)\<rparr> @ [''HTTP_ACCEPT=a'', ''HTTP_X_FOO=bar'']"
    using buildEnv_http_variables [where order = "[''Accept'', ''X-Foo'']" and req = "\<lparr>Method = ''GET'', URL_Path = ''/app'', URL_RawQuery = [], Header = [''X-Foo'' \<mapsto> [''bar''], ''Accept'' \<mapsto> [''a'', ''b'']], ContentLength = 0, TransferEncoding = [], Host = ''example.com'', Proto = ''HTTP/1.1'', RemoteAddr = ''192.0.2.1:5000'', TLS = False, Body = OriginalBody ([], EOF)\<rparr>" and k = "''X-Foo''" and mapUpper = "\<lambda>s. s" and h = "\<lparr>Path = ''/bin/app'', Root = ''/'', Dir = [], Args = [], Env = [], InheritEnv = []\<rparr>" and getenv = "\<lambda>key. []"]
      buildEnv_http_variables [where order = "[''Accept'', ''X-Foo'']" and req = "\<lparr>Method = ''GET'', URL_Path = ''/app'', URL_RawQuery = [], Header = [''X-Foo'' \<mapsto> [''bar''], ''Accept'' \<mapsto> [''a'', ''b'']], ContentLength = 0, TransferEncoding = [], Host = ''example.com'', Proto = ''HTTP/1.1'', RemoteAddr = ''192.0.2.1:5000'', TLS = False, Body = OriginalBody ([], EOF)\<rparr>" and k = "''Accept''" and mapUpper = "\<lambda>s. s" and h = "\<lparr>Path = ''/bin/app'', Root = ''/'', Dir = [], Args = [], Env = [], InheritEnv = []\<rparr>" and getenv = "\<lambda>key. []"]
    by (simp add: d n Let_def headerValues_def)
  have "''HTTP-X-FOO'' \<notin> set (map envKey (buildEnv \<lparr>Path = ''/bin/app'', Root = ''/'', Dir = [], Args = [], Env = [], InheritEnv = []\<rparr> (\<lambda>key. []) (\<lambda>s. s) [''Accept'', ''X-Foo''] \<lparr>Method = ''GET'', URL_Path = ''/app'', URL_RawQuery = [], Header = [''X-Foo'' \<mapsto> [''bar''], ''Accept'' \<mapsto> [''a'', ''b'']], ContentLength = 0, TransferEncoding = [], Host = ''example.com'', Proto = ''HTTP/1.1'', RemoteAddr = ''192.0.2.1:5000'', TLS = False, Body = OriginalBody ([], EOF)\<rparr>))"
    unfolding ex map_append fixedEnv_keys by (simp add: envKey_def)
  with ex show ?thesis by simp
qed

text \<open>
  C3, as the code has it. The sequence that \<open>buildEnv\<close> returns starts with the thirteen
  fixed variables, whose keys differ from each other; behind them stand the variables
  of the request headers, the handler's \<open>Env\<close> entries and the inherited variables,
  appended as they are: no entry is removed or merged. So every key occurs once in the
  sequence exactly when the appended entries have keys that differ from each other and
  from the fixed keys.
\<close>

theorem buildEnv_keys:
  "(let env = buildEnv h getenv mapUpper order req; appended = drop 13 env in
     env = fixedEnv req @ appended \<and>
     appended =
       map (\<lambda>key. ''HTTP_'' @ ToUpper mapUpper (ReplaceAll key (CHR ''-'') (CHR ''_''))
                     @ ''='' @ headerValues req key ! 0)
         (filter (\<lambda>key. headerValues req key \<noteq> []) order)
       @ Env h
       @ map (\<lambda>key. key @ ''='' @ getenv key) (filter (\<lambda>key. getenv key \<noteq> []) (InheritEnv h)) \<and>
     distinct (map envKey (fixedEnv req)) \<and>
     distinct (map envKey env)
       = (distinct (map envKey appended)
          \<and> set (map envKey appended) \<inter> set (map envKey (fixedEnv req)) = {}))"
proof -
  define rest where "rest =
       map (\<lambda>key. ''HTTP_'' @ ToUpper mapUpper (ReplaceAll key (CHR ''-'') (CHR ''_''))
                     @ ''='' @ headerValues req key ! 0)
         (filter (\<lambda>key. headerValues req key \<noteq> []) order)
       @ Env h
       @ map (\<lambda>key. key @ ''='' @ getenv key) (filter (\<lambda>key. getenv key \<noteq> []) (InheritEnv h))"
  have env: "buildEnv h getenv mapUpper order req = fixedEnv req @ rest"
    by (simp only: buildEnv_eq rest_def)
  have dr: "drop 13 (buildEnv h getenv mapUpper order req) = rest"
    by (simp add: env fixedEnv_length)
  have df: "distinct (map envKey (fixedEnv req))" by (simp add: fixedEnv_keys)
  have "distinct (map envKey (fixedEnv req @ rest))
          = (distinct (map envKey rest)
             \<and> set (map envKey rest) \<inter> set (map envKey (fixedEnv req)) = {})"
    using df by (auto simp del: set_map)
  then show ?thesis
    unfolding Let_def dr unfolding env using df rest_def by blast
qed

text \<open>
  C3, as stated. \<open>X-Foo\<close> and \<open>X_foo\<close> are two keys of a header map; for a request with
  these two headers, no \<open>Env\<close> entry and no inherited variable, the sequence has the key
  \<open>HTTP_X_FOO\<close> twice. For a handler with the \<open>Env\<close> entry \<open>PATH_INFO=/extra\<close> and a request
  without headers, the sequence has the key \<open>PATH_INFO\<close> twice.
\<close>

theorem env_keys_not_unique:
  "CanonicalMIMEHeaderKey ''X-Foo'' = ''X-Foo'' \<and> CanonicalMIMEHeaderKey ''X_foo'' = ''X_foo'' \<and>
   map envKey (buildEnv \<lparr>Path = ''/bin/app'', Root = ''/'', Dir = [], Args = [], Env = [], InheritEnv = []\<rparr> (\<lambda>key. []) (\<lambda>s. s) [''X-Foo'', ''X_foo''] \<lparr>Method = ''GET'', URL_Path = ''/app'', URL_RawQuery = [], Header = [''X-Foo'' \<mapsto> [''1''], ''X_foo'' \<mapsto> [''2'']], ContentLength = 0, TransferEncoding = [], Host = ''example.com'', Proto = ''HTTP/1.1'', RemoteAddr = ''192.0.2.1:5000'', TLS = False, Body = OriginalBody ([], EOF)\<rparr>)
     = [''REQUEST_METHOD'', ''SCRIPT_NAME'', ''PATH_INFO'', ''QUERY_STRING'', ''CONTENT_TYPE'',
        ''CONTENT_LENGTH'', ''SERVER_NAME'', ''SERVER_PORT'', ''SERVER_PROTOCOL'',
        ''SERVER_SOFTWARE'', ''GATEWAY_INTERFACE'', ''REMOTE_ADDR'', ''REMOTE_HOST'',
        ''HTTP_X_FOO'', ''HTTP_X_FOO''] \<and>
   \<not> distinct (map envKey (buildEnv \<lparr>Path = ''/bin/app'', Root = ''/'', Dir = [], Args = [], Env = [], InheritEnv = []\<rparr> (\<lambda>key. []) (\<lambda>s. s) [''X-Foo'', ''X_foo''] \<lparr>Method = ''GET'', URL_Path = ''/app'', URL_RawQuery = [], Header = [''X-Foo'' \<mapsto> [''1''], ''X_foo'' \<mapsto> [''2'']], ContentLength = 0, TransferEncoding = [], Host = ''example.com'', Proto = ''HTTP/1.1'', RemoteAddr = ''192.0.2.1:5000'', TLS = False, Body = OriginalBody ([], EOF)\<rparr>)) \<and>
   map envKey (buildEnv \<lparr>Path = ''/bin/app'', Root = ''/'', Dir = [], Args = [], Env = [''PATH_INFO=/extra''], InheritEnv = []\<rparr> (\<lambda>key. []) (\<lambda>s. s) [] \<lparr>Method = ''GET'', URL_Path = ''/app'', URL_RawQuery = [], Header = Map.empty, ContentLength = 0, TransferEncoding = [], Host = ''example.com'', Proto = ''HTTP/1.1'', RemoteAddr = ''192.0.2.1:5000'', TLS = False, Body = OriginalBody ([], EOF)\<rparr>)
     = [''REQUEST_METHOD'', ''SCRIPT_NAME'', ''PATH_INFO'', ''QUERY_STRING'', ''CONTENT_TYPE'',
        ''CONTENT_LENGTH'', ''SERVER_NAME'', ''SERVER_PORT'', ''SERVER_PROTOCOL'',
        ''SERVER_SOFTWARE'', ''GATEWAY_INTERFACE'', ''REMOTE_ADDR'', ''REMOTE_HOST'',
        ''PATH_INFO''] \<and>
   \<not> distinct (map envKey (buildEnv \<lparr>Path = ''/bin/app'', Root = ''/'', Dir = [], Args = [], Env = [''PATH_INFO=/extra''], InheritEnv = []\<rparr> (\<lambda>key. []) (\<lambda>s. s) [] \<lparr>Method = ''GET'', URL_Path = ''/app'', URL_RawQuery = [], Header = Map.empty, ContentLength = 0, TransferEncoding = [], Host = ''example.com'', Proto = ''HTTP/1.1'', RemoteAddr = ''192.0.2.1:5000'', TLS = False, Body = OriginalBody ([], EOF)\<rparr>))"
proof -
  have c: "CanonicalMIMEHeaderKey ''X-Foo'' = ''X-Foo''" "CanonicalMIMEHeaderKey ''X_foo'' = ''X_foo''"
    by code_simp+
  have u: "ToUpper (\<lambda>s. s) (ReplaceAll ''X-Foo'' (CHR ''-'') (CHR ''_'')) = ''X_FOO''"
    "ToUpper (\<lambda>s. s) (ReplaceAll ''X_foo'' (CHR ''-'') (CHR ''_'')) = ''X_FOO''"
    by code_simp+
  have x: "map envKey (buildEnv \<lparr>Path = ''/bin/app'', Root = ''/'', Dir = [], Args = [], Env = [], InheritEnv = []\<rparr> (\<lambda>key. []) (\<lambda>s. s) [''X-Foo'', ''X_foo''] \<lparr>Method = ''GET'', URL_Path = ''/app'', URL_RawQuery = [], Header = [''X-Foo'' \<mapsto> [''1''], ''X_foo'' \<mapsto> [''2'']], ContentLength = 0, TransferEncoding = [], Host = ''example.com'', Proto = ''HTTP/1.1'', RemoteAddr = ''192.0.2.1:5000'', TLS = False, Body = OriginalBody ([], EOF)\<rparr>)
     = [''REQUEST_METHOD'', ''SCRIPT_NAME'', ''PATH_INFO'', ''QUERY_STRING'', ''CONTENT_TYPE'',
        ''CONTENT_LENGTH'', ''SERVER_NAME'', ''SERVER_PORT'', ''SERVER_PROTOCOL'',
        ''SERVER_SOFTWARE'', ''GATEWAY_INTERFACE'', ''REMOTE_ADDR'', ''REMOTE_HOST'',
        ''HTTP_X_FOO'', ''HTTP_X_FOO'']"
    unfolding buildEnv_eq map_append fixedEnv_keys
    by (simp add: headerValues_def u envKey_def)
  have k: "envKey ''PATH_INFO=/extra'' = ''PATH_INFO''" by code_simp
  have p: "map envKey (buildEnv \<lparr>Path = ''/bin/app'', Root = ''/'', Dir = [], Args = [], Env = [''PATH_INFO=/extra''], InheritEnv = []\<rparr> (\<lambda>key. []) (\<lambda>s. s) [] \<lparr>Method = ''GET'', URL_Path = ''/app'', URL_RawQuery = [], Header = Map.empty, ContentLength = 0, TransferEncoding = [], Host = ''example.com'', Proto = ''HTTP/1.1'', RemoteAddr = ''192.0.2.1:5000'', TLS = False, Body = OriginalBody ([], EOF)\<rparr>)
     = [''REQUEST_METHOD'', ''SCRIPT_NAME'', ''PATH_INFO'', ''QUERY_STRING'', ''CONTENT_TYPE'',
        ''CONTENT_LENGTH'', ''SERVER_NAME'', ''SERVER_PORT'', ''SERVER_PROTOCOL'',
        ''SERVER_SOFTWARE'', ''GATEWAY_INTERFACE'', ''REMOTE_ADDR'', ''REMOTE_HOST'',
        ''PATH_INFO'']"
    unfolding buildEnv_eq map_append fixedEnv_keys
    by (simp add: k)
  show ?thesis unfolding x p using c by simp
qed

section \<open>Properties of the reframing step\<close>

lemma intSize_pow: "(2 :: int) ^ intSize a = 2 * 2 ^ (intSize a - 1)"
  by (cases a) simp_all

lemma toInt_id:
  assumes "0 \<le> x" and "x < 2 ^ (intSize (GOARCH rt) - 1)"
  shows "toInt rt x = x"
proof -
  have "0 \<le> x + 2 ^ (intSize (GOARCH rt) - 1)" using assms(1) by simp
  moreover have "x + 2 ^ (intSize (GOARCH rt) - 1) < 2 ^ intSize (GOARCH rt)"
    using assms(2) by (simp add: intSize_pow)
  ultimately have "(x + 2 ^ (intSize (GOARCH rt) - 1)) mod 2 ^ intSize (GOARCH rt)
                     = x + 2 ^ (intSize (GOARCH rt) - 1)"
    by (rule mod_pos_pos_trivial)
  then show ?thesis by (simp add: toInt_def)
qed

lemma canonical_names:
  "CanonicalMIMEHeaderKey ''Transfer-Encoding'' = ''Transfer-Encoding''"
  "CanonicalMIMEHeaderKey ''Content-Length'' = ''Content-Length''"
  by code_simp+

lemma new_header:
  "Header_Add (Header_Del h ''Transfer-Encoding'') ''Content-Length'' v =
     h(''Transfer-Encoding'' := None,
       ''Content-Length'' \<mapsto> (case h ''Content-Length'' of None \<Rightarrow> [] | Some vs \<Rightarrow> vs) @ [v])"
  by (simp add: Header_Add_def Header_Del_def canonical_names Let_def)

text \<open>
  With a limit \<open>L\<close> that is small for \<open>int\<close> and the memory for it, every round of
  \<open>ReadFrom\<close> finds its room, whatever the capacity of the buffer.
\<close>

lemma grow_ok:
  assumes fit: "2 * L + 1536 \<le> maxInt rt"
    and mem: "\<forall>n. n \<le> 2 * L + 1024 \<longrightarrow> make_bytes rt n"
    and m: "0 \<le> m" "m \<le> L"
  shows "\<exists>c1. grow rt c m 512 = Inr c1"
proof (cases "512 \<le> c - m \<or> 512 \<le> c div 2 - m")
  case True
  then show ?thesis by (auto simp: grow_def)
next
  case False
  then have c: "c < m + 512" by simp
  then have o: "\<not> c > maxInt rt - c - 512" using fit m by simp
  have "(if m + 512 < 2 * c then 2 * c else m + 512) \<le> 2 * L + 1024" using c m by simp
  then have "make_bytes rt (if m + 512 < 2 * c then 2 * c else m + 512)" using mem by blast
  then show ?thesis using False o by (simp add: grow_def Let_def)
qed

lemma ReadFrom_ok:
  assumes fit: "2 * L + 1536 \<le> maxInt rt"
    and mem: "\<forall>n. n \<le> 2 * L + 1024 \<longrightarrow> make_bytes rt n"
  shows "0 \<le> N \<Longrightarrow> int (length buf) + N \<le> L \<Longrightarrow>
         ReadFrom rt c buf (bs, e) N =
           Inr (buf @ take (nat N) bs,
                (if int (length bs) < N \<and> e \<noteq> EOF then Some e else None),
                (drop (nat N) bs, e))"
proof (induction "length bs" arbitrary: bs c buf N rule: less_induct)
  case less
  from grow_ok [OF fit mem, of "int (length buf)" c] less.prems
  obtain c1 where g: "grow rt c (int (length buf)) 512 = Inr c1" by auto
  have room: "512 \<le> c1 - int (length buf)" using grow_room [OF g] by simp
  show ?case
  proof (cases "N \<le> 0")
    case True
    with less.prems have "N = 0" by simp
    then show ?thesis by (subst ReadFrom.simps) (simp add: g)
  next
    case N: False
    show ?thesis
    proof (cases "bs = []")
      case True
      then show ?thesis using N by (subst ReadFrom.simps) (simp add: g)
    next
      case False
      define k where "k = min (min (nat (c1 - int (length buf))) (nat N)) (length bs)"
      have k1: "0 < k" using room N False by (simp add: k_def)
      have kN: "k \<le> nat N" and kb: "k \<le> length bs" by (simp_all add: k_def)
      have step: "ReadFrom rt c buf (bs, e) N
                    = ReadFrom rt c1 (buf @ take k bs) (drop k bs, e) (N - int k)"
        using N False by (subst ReadFrom.simps) (simp add: g k_def Let_def)
      have l: "length (drop k bs) < length bs" using k1 kb by simp
      have n0: "0 \<le> N - int k" using kN N by linarith
      have inv: "int (length (buf @ take k bs)) + (N - int k) \<le> L"
        using less.prems(2) kb by simp
      have split: "nat N = k + nat (N - int k)" using kN N by linarith
      have t: "take (nat N) bs = take k bs @ take (nat (N - int k)) (drop k bs)"
        unfolding split by (rule take_add)
      have d: "drop (nat (N - int k)) (drop k bs) = drop (nat N) bs"
        unfolding split by (simp add: add.commute)
      have e: "(int (length (drop k bs)) < N - int k) = (int (length bs) < N)"
        using kb by (simp add: of_nat_diff)
      show ?thesis
        unfolding step less.hyps [OF l n0 inv] t d e by simp
    qed
  qed
qed

lemma CopyN_ok:
  assumes fit: "2 * L + 1536 \<le> maxInt rt"
    and mem: "\<forall>n. n \<le> 2 * L + 1024 \<longrightarrow> make_bytes rt n"
    and pos: "0 < L"
  shows "CopyN rt c (bs, EOF) L =
           (if L \<le> int (length bs)
            then Inr (take (nat L) bs, L, None, (drop (nat L) bs, EOF))
            else Inr (bs, int (length bs), Some EOF, ([], EOF)))"
proof -
  have r: "ReadFrom rt c [] (bs, EOF) L = Inr (take (nat L) bs, None, (drop (nat L) bs, EOF))"
    using ReadFrom_ok [OF fit mem, of L "[]" c bs EOF] pos by simp
  show ?thesis
  proof (cases "L \<le> int (length bs)")
    case True
    then have "int (length (take (nat L) bs)) = L" using pos by simp
    then show ?thesis using True by (simp add: CopyN_def r Let_def)
  next
    case False
    then have "take (nat L) bs = bs" "drop (nat L) bs = []" by simp_all
    then show ?thesis using False by (simp add: CopyN_def r Let_def)
  qed
qed

lemma Grow_ok:
  assumes fit: "3 * L + 1536 \<le> maxInt rt"
    and mem: "\<forall>n. n \<le> 2 * L + 1024 \<longrightarrow> make_bytes rt n"
    and pos: "0 < L" and small: "bufCap < L"
  shows "\<exists>cap1. Grow rt bufCap (L + 512) = Inr cap1"
proof -
  have a: "\<not> L + 512 \<le> bufCap - 0" "\<not> L + 512 \<le> 64" "\<not> L + 512 \<le> bufCap div 2 - 0"
    using pos small by simp_all
  have o: "\<not> bufCap > maxInt rt - bufCap - (L + 512)" using fit small by simp
  have n: "\<not> L + 512 < 0" using pos by simp
  have "(if 0 + (L + 512) < 2 * bufCap then 2 * bufCap else 0 + (L + 512)) \<le> 2 * L + 1024"
    using small pos by simp
  then have "make_bytes rt (if 0 + (L + 512) < 2 * bufCap then 2 * bufCap else 0 + (L + 512))"
    using mem by blast
  then have "\<exists>cap1. grow rt bufCap 0 (L + 512) = Inr cap1"
    unfolding grow_def Let_def using a o pos by simp
  then show ?thesis unfolding Grow_def using n by simp
qed

lemma readBody_ok:
  assumes fit: "3 * L + 1536 \<le> maxInt rt"
    and mem: "\<forall>n. n \<le> 2 * L + 1024 \<longrightarrow> make_bytes rt n"
    and pos: "0 < L" and L: "BufferLimit c = L"
    and fs: "int (length content) < L
             \<or> (CreateTemp_err fs = None \<and> Write_err fs = None
                \<and> Copy_err fs = None \<and> Seek_err fs = None)"
  shows "readBody c rt bufCap fs (content, EOF) =
           Inr (if int (length content) < L then MemoryBody content else FileBody content,
                int (length content))"
proof -
  have fit2: "2 * L + 1536 \<le> maxInt rt" using fit pos by simp
  have b: "L < 2 ^ (intSize (GOARCH rt) - 1)" "L + 512 < 2 ^ (intSize (GOARCH rt) - 1)"
    using fit pos by (simp_all add: maxInt_def)
  have i1: "toInt rt L = L" using pos b(1) by (intro toInt_id) simp_all
  have i2: "toInt rt (L + 512) = L + 512" using pos b(2) by (intro toInt_id) simp_all
  have "\<exists>cap1. (if bufCap < toInt rt (BufferLimit c)
      then Grow rt bufCap (toInt rt (toInt rt (BufferLimit c) + 512))
      else Inr bufCap) = Inr cap1"
  proof (cases "bufCap < L")
    case True
    then obtain cap0 where "Grow rt bufCap (L + 512) = Inr cap0"
      using Grow_ok [OF fit mem pos] by blast
    then show ?thesis using True by (simp add: L i1 i2)
  next
    case False
    then show ?thesis by (simp add: L i1)
  qed
  then obtain cap1 where cap1:
    "(if bufCap < toInt rt (BufferLimit c)
      then Grow rt bufCap (toInt rt (toInt rt (BufferLimit c) + 512))
      else Inr bufCap) = Inr cap1"
    by blast
  note cp = CopyN_ok [OF fit2 mem pos, of cap1 content]
  show ?thesis
  proof (cases "int (length content) < L")
    case True
    then show ?thesis
      unfolding readBody_def cap1 by (simp add: L cp)
  next
    case False
    then have le: "L \<le> int (length content)" by simp
    have ok: "CreateTemp_err fs = None" "Write_err fs = None" "Copy_err fs = None"
      "Seek_err fs = None"
      using fs False by simp_all
    have len: "length (take (nat L) content) \<noteq> 0" using pos le by simp
    have nl: "int (nat L) = L" using pos by simp
    have "nat L \<le> length content" using pos le by linarith
    then have "int (length content - nat L) = int (length content) - int (nat L)"
      by (rule of_nat_diff)
    then have "int (length (drop (nat L) content)) = int (length content) - L"
      by (simp only: length_drop nl)
    then have sz: "L + int (length (drop (nat L) content)) = int (length content)"
      by linarith
    have sp: "spill fs (take (nat L) content) L (drop (nat L) content, EOF)
              = Inr (FileBody content, int (length content))"
      using len by (simp add: spill_def ok Let_def sz del: length_drop)
    show ?thesis
      unfolding readBody_def cap1 using False le by (simp add: L cp sp)
  qed
qed

text \<open>
  C1, as the code has it. Let the request be chunked and its body \<open>content\<close> end cleanly;
  let the buffer limit \<open>L\<close> be positive and small for the platform's \<open>int\<close>, and let the
  allocations of up to \<open>2 L + 1024\<close> bytes succeed, which are all that the memory buffer
  can ask for. If the body is shorter than the limit, or if the temporary file can be
  created, written and rewound, then \<open>ServeHTTP\<close> hands to the CGI handler (or to
  \<open>inspect\<close>) a request with a content length that is the length of the body, with the
  body in the memory buffer when it is shorter than the limit and in the temporary file
  otherwise, with an empty \<open>TransferEncoding\<close>, no \<open>Transfer-Encoding\<close> header and the
  length in decimal as last value of the \<open>Content-Length\<close> header. The environment of
  the subprocess is built behind this call, from this request.
\<close>

theorem reframe_chunked:
  assumes te: "TransferEncoding r = ''chunked'' # te"
    and body: "Body r = OriginalBody (content, EOF)"
    and pos: "0 < BufferLimit c"
    and fit: "3 * BufferLimit c + 1536 \<le> maxInt rt"
    and mem: "\<forall>n. n \<le> 2 * BufferLimit c + 1024 \<longrightarrow> make_bytes rt n"
    and fs: "int (length content) < BufferLimit c
             \<or> (CreateTemp_err fs = None \<and> Write_err fs = None
                \<and> Copy_err fs = None \<and> Seek_err fs = None)"
  shows "ServeHTTP c rt repl username envList bufCap fs r =
           (let r1 = r\<lparr>Body := (if int (length content) < BufferLimit c
                                 then MemoryBody content else FileBody content),
                       TransferEncoding := [],
                       Header := (Header r)(''Transfer-Encoding'' := None,
                          ''Content-Length'' \<mapsto>
                             (case Header r ''Content-Length'' of None \<Rightarrow> [] | Some vs \<Rightarrow> vs)
                             @ [FormatInt (int (length content))]),
                       ContentLength := int (length content)\<rparr>;
                h = cgiHandler c repl username envList r
            in Inr (if Inspect c then Inspected h r1 else Served h (UnbufferedOutput c) r1))"
proof -
  have ch: "length (TransferEncoding r) > 0 \<and> TransferEncoding r ! 0 = ''chunked''"
    by (simp add: te)
  have rb: "readBody c rt bufCap fs (bodyReader (Body r)) =
           Inr (if int (length content) < BufferLimit c
                then MemoryBody content else FileBody content,
                int (length content))"
    unfolding body bodyReader.simps
    by (rule readBody_ok [OF fit mem pos refl fs])
  have rf: "reframe c rt bufCap fs r =
           Inr (r\<lparr>Body := (if int (length content) < BufferLimit c
                             then MemoryBody content else FileBody content),
                  TransferEncoding := [],
                  Header := (Header r)(''Transfer-Encoding'' := None,
                     ''Content-Length'' \<mapsto>
                        (case Header r ''Content-Length'' of None \<Rightarrow> [] | Some vs \<Rightarrow> vs)
                        @ [FormatInt (int (length content))]),
                  ContentLength := int (length content)\<rparr>)"
    unfolding reframe_def rb using ch by (simp add: new_header)
  show ?thesis
    unfolding ServeHTTP_def rf by (simp add: Let_def)
qed

theorem reframe_chunked_witness:
  "ServeHTTP \<lparr>Executable = ''/bin/app'', WorkingDirectory = [], ScriptName = ''/app'', CGI_Args = [], Envs = [], PassEnvs = [], PassAll = False, Inspect = False, BufferLimit = 4, UnbufferedOutput = False\<rparr> \<lparr>GOARCH = Int64, make_bytes = (\<lambda>n. n \<le> 1048576), roundupsize = (\<lambda>n. n)\<rparr> (\<lambda>vars s. s) [] [] 0 \<lparr>CreateTemp_err = None, Write_err = None, Copy_err = None, Seek_err = None\<rparr> \<lparr>Method = ''POST'', URL_Path = ''/app'', URL_RawQuery = [], Header = Map.empty, ContentLength = - 1, TransferEncoding = [''chunked''], Host = ''example.com'', Proto = ''HTTP/1.1'', RemoteAddr = ''192.0.2.1:5000'', TLS = False, Body = OriginalBody (''hello world'', EOF)\<rparr>
     = Inr (Served (cgiHandler \<lparr>Executable = ''/bin/app'', WorkingDirectory = [], ScriptName = ''/app'', CGI_Args = [], Envs = [], PassEnvs = [], PassAll = False, Inspect = False, BufferLimit = 4, UnbufferedOutput = False\<rparr> (\<lambda>vars s. s) [] [] \<lparr>Method = ''POST'', URL_Path = ''/app'', URL_RawQuery = [], Header = Map.empty, ContentLength = - 1, TransferEncoding = [''chunked''], Host = ''example.com'', Proto = ''HTTP/1.1'', RemoteAddr = ''192.0.2.1:5000'', TLS = False, Body = OriginalBody (''hello world'', EOF)\<rparr>) False \<lparr>Method = ''POST'', URL_Path = ''/app'', URL_RawQuery = [], Header = [''Content-Length'' \<mapsto> [''11'']], ContentLength = 11, TransferEncoding = [], Host = ''example.com'', Proto = ''HTTP/1.1'', RemoteAddr = ''192.0.2.1:5000'', TLS = False, Body = FileBody ''hello world''\<rparr>) \<and>
   ServeHTTP \<lparr>Executable = ''/bin/app'', WorkingDirectory = [], ScriptName = ''/app'', CGI_Args = [], Envs = [], PassEnvs = [], PassAll = False, Inspect = False, BufferLimit = 4, UnbufferedOutput = False\<rparr> \<lparr>GOARCH = Int64, make_bytes = (\<lambda>n. n \<le> 1048576), roundupsize = (\<lambda>n. n)\<rparr> (\<lambda>vars s. s) [] [] 0 \<lparr>CreateTemp_err = None, Write_err = None, Copy_err = None, Seek_err = None\<rparr> \<lparr>Method = ''POST'', URL_Path = ''/app'', URL_RawQuery = [], Header = Map.empty, ContentLength = - 1, TransferEncoding = [''chunked''], Host = ''example.com'', Proto = ''HTTP/1.1'', RemoteAddr = ''192.0.2.1:5000'', TLS = False, Body = OriginalBody (''hi'', EOF)\<rparr>
     = Inr (Served (cgiHandler \<lparr>Executable = ''/bin/app'', WorkingDirectory = [], ScriptName = ''/app'', CGI_Args = [], Envs = [], PassEnvs = [], PassAll = False, Inspect = False, BufferLimit = 4, UnbufferedOutput = False\<rparr> (\<lambda>vars s. s) [] [] \<lparr>Method = ''POST'', URL_Path = ''/app'', URL_RawQuery = [], Header = Map.empty, ContentLength = - 1, TransferEncoding = [''chunked''], Host = ''example.com'', Proto = ''HTTP/1.1'', RemoteAddr = ''192.0.2.1:5000'', TLS = False, Body = OriginalBody (''hi'', EOF)\<rparr>) False \<lparr>Method = ''POST'', URL_Path = ''/app'', URL_RawQuery = [], Header = [''Content-Length'' \<mapsto> [''2'']], ContentLength = 2, TransferEncoding = [], Host = ''example.com'', Proto = ''HTTP/1.1'', RemoteAddr = ''192.0.2.1:5000'', TLS = False, Body = MemoryBody ''hi''\<rparr>)"
proof -
  have f: "FormatInt 11 = ''11''" "FormatInt 2 = ''2''" by code_simp+
  show ?thesis
    using reframe_chunked [of "\<lparr>Method = ''POST'', URL_Path = ''/app'', URL_RawQuery = [], Header = Map.empty, ContentLength = - 1, TransferEncoding = [''chunked''], Host = ''example.com'', Proto = ''HTTP/1.1'', RemoteAddr = ''192.0.2.1:5000'', TLS = False, Body = OriginalBody (''hello world'', EOF)\<rparr>" "[]" "''hello world''" "\<lparr>Executable = ''/bin/app'', WorkingDirectory = [], ScriptName = ''/app'', CGI_Args = [], Envs = [], PassEnvs = [], PassAll = False, Inspect = False, BufferLimit = 4, UnbufferedOutput = False\<rparr>" "\<lparr>GOARCH = Int64, make_bytes = (\<lambda>n. n \<le> 1048576), roundupsize = (\<lambda>n. n)\<rparr>" "\<lparr>CreateTemp_err = None, Write_err = None, Copy_err = None, Seek_err = None\<rparr>" "\<lambda>vars s. s" "[]" "[]" 0]
      reframe_chunked [of "\<lparr>Method = ''POST'', URL_Path = ''/app'', URL_RawQuery = [], Header = Map.empty, ContentLength = - 1, TransferEncoding = [''chunked''], Host = ''example.com'', Proto = ''HTTP/1.1'', RemoteAddr = ''192.0.2.1:5000'', TLS = False, Body = OriginalBody (''hi'', EOF)\<rparr>" "[]" "''hi''" "\<lparr>Executable = ''/bin/app'', WorkingDirectory = [], ScriptName = ''/app'', CGI_Args = [], Envs = [], PassEnvs = [], PassAll = False, Inspect = False, BufferLimit = 4, UnbufferedOutput = False\<rparr>" "\<lparr>GOARCH = Int64, make_bytes = (\<lambda>n. n \<le> 1048576), roundupsize = (\<lambda>n. n)\<rparr>" "\<lparr>CreateTemp_err = None, Write_err = None, Copy_err = None, Seek_err = None\<rparr>" "\<lambda>vars s. s" "[]" "[]" 0]
    by (simp add: f maxInt_def Let_def)
qed

text \<open>
  C1, as stated. With the limit \<open>-1\<close> and a body of one byte, \<open>io.CopyN\<close> reads nothing
  and reports no error: the new body is the empty memory buffer and the content length
  is 0, although the body is as long as the limit or longer and no temporary file is
  made.
\<close>

theorem reframe_negative_limit:
  "reframe \<lparr>Executable = ''/bin/app'', WorkingDirectory = [], ScriptName = ''/app'', CGI_Args = [], Envs = [], PassEnvs = [], PassAll = False, Inspect = False, BufferLimit = - 1, UnbufferedOutput = False\<rparr> \<lparr>GOARCH = Int64, make_bytes = (\<lambda>n. n \<le> 1048576), roundupsize = (\<lambda>n. n)\<rparr> 0 \<lparr>CreateTemp_err = None, Write_err = None, Copy_err = None, Seek_err = None\<rparr> \<lparr>Method = ''POST'', URL_Path = ''/app'', URL_RawQuery = [], Header = Map.empty, ContentLength = - 1, TransferEncoding = [''chunked''], Host = ''example.com'', Proto = ''HTTP/1.1'', RemoteAddr = ''192.0.2.1:5000'', TLS = False, Body = OriginalBody (''x'', EOF)\<rparr> = Inr \<lparr>Method = ''POST'', URL_Path = ''/app'', URL_RawQuery = [], Header = [''Content-Length'' \<mapsto> [''0'']], ContentLength = 0, TransferEncoding = [], Host = ''example.com'', Proto = ''HTTP/1.1'', RemoteAddr = ''192.0.2.1:5000'', TLS = False, Body = MemoryBody []\<rparr> \<and> (- 1 :: int) \<le> int (length ''x'')"
proof -
  have f: "FormatInt 0 = ''0''" by code_simp
  have g: "grow \<lparr>GOARCH = Int64, make_bytes = (\<lambda>n. n \<le> 1048576), roundupsize = (\<lambda>n. n)\<rparr> 0 0 512 = Inr 512"
    by (simp add: grow_def maxInt_def Let_def)
  have r: "ReadFrom \<lparr>GOARCH = Int64, make_bytes = (\<lambda>n. n \<le> 1048576), roundupsize = (\<lambda>n. n)\<rparr> 0 [] (''x'', EOF) (- 1) = Inr ([], None, (''x'', EOF))"
    by (subst ReadFrom.simps) (simp add: g)
  have t: "toInt \<lparr>GOARCH = Int64, make_bytes = (\<lambda>n. n \<le> 1048576), roundupsize = (\<lambda>n. n)\<rparr> (- 1) = - 1" by (simp add: toInt_def)
  have "readBody \<lparr>Executable = ''/bin/app'', WorkingDirectory = [], ScriptName = ''/app'', CGI_Args = [], Envs = [], PassEnvs = [], PassAll = False, Inspect = False, BufferLimit = - 1, UnbufferedOutput = False\<rparr> \<lparr>GOARCH = Int64, make_bytes = (\<lambda>n. n \<le> 1048576), roundupsize = (\<lambda>n. n)\<rparr> 0 \<lparr>CreateTemp_err = None, Write_err = None, Copy_err = None, Seek_err = None\<rparr> (''x'', EOF) = Inr (MemoryBody [], 0)"
    by (simp add: readBody_def t CopyN_def r Let_def)
  then show ?thesis
    by (simp add: reframe_def new_header f)
qed

text \<open>With the limit 0 the request ends in the panic of \<open>io.CopyBuffer\<close>.\<close>

lemma reframe_zero_limit:
  "reframe \<lparr>Executable = ''/bin/app'', WorkingDirectory = [], ScriptName = ''/app'', CGI_Args = [], Envs = [], PassEnvs = [], PassAll = False, Inspect = False, BufferLimit = 0, UnbufferedOutput = False\<rparr> \<lparr>GOARCH = Int64, make_bytes = (\<lambda>n. n \<le> 1048576), roundupsize = (\<lambda>n. n)\<rparr> 0 \<lparr>CreateTemp_err = None, Write_err = None, Copy_err = None, Seek_err = None\<rparr> \<lparr>Method = ''POST'', URL_Path = ''/app'', URL_RawQuery = [], Header = Map.empty, ContentLength = - 1, TransferEncoding = [''chunked''], Host = ''example.com'', Proto = ''HTTP/1.1'', RemoteAddr = ''192.0.2.1:5000'', TLS = False, Body = OriginalBody (''x'', EOF)\<rparr> = Inl (Panic ''empty buffer in CopyBuffer'')"
proof -
  have g: "grow \<lparr>GOARCH = Int64, make_bytes = (\<lambda>n. n \<le> 1048576), roundupsize = (\<lambda>n. n)\<rparr> 0 0 512 = Inr 512"
    by (simp add: grow_def maxInt_def Let_def)
  have r: "ReadFrom \<lparr>GOARCH = Int64, make_bytes = (\<lambda>n. n \<le> 1048576), roundupsize = (\<lambda>n. n)\<rparr> 0 [] (''x'', EOF) 0 = Inr ([], None, (''x'', EOF))"
    by (subst ReadFrom.simps) (simp add: g)
  have t: "toInt \<lparr>GOARCH = Int64, make_bytes = (\<lambda>n. n \<le> 1048576), roundupsize = (\<lambda>n. n)\<rparr> 0 = 0" by (simp add: toInt_def)
  have "readBody \<lparr>Executable = ''/bin/app'', WorkingDirectory = [], ScriptName = ''/app'', CGI_Args = [], Envs = [], PassEnvs = [], PassAll = False, Inspect = False, BufferLimit = 0, UnbufferedOutput = False\<rparr> \<lparr>GOARCH = Int64, make_bytes = (\<lambda>n. n \<le> 1048576), roundupsize = (\<lambda>n. n)\<rparr> 0 \<lparr>CreateTemp_err = None, Write_err = None, Copy_err = None, Seek_err = None\<rparr> (''x'', EOF) = Inl (Panic ''empty buffer in CopyBuffer'')"
    by (simp add: readBody_def t CopyN_def r Let_def spill_def)
  then show ?thesis
    by (simp add: reframe_def)
qed

text \<open>
  With the limit \<open>2 ^ 62\<close>, an empty buffer from the pool and a runtime that has no
  \<open>2 ^ 62 + 512\<close> bytes to give, the request ends in the panic of \<open>Buffer.Grow\<close>; on a
  platform with an \<open>int\<close> of 32 bits the limit \<open>2 ^ 31 - 1\<close> ends in the panic for a
  negative count.
\<close>

lemma reframe_too_large:
  "reframe \<lparr>Executable = ''/bin/app'', WorkingDirectory = [], ScriptName = ''/app'', CGI_Args = [], Envs = [], PassEnvs = [], PassAll = False, Inspect = False, BufferLimit = 4611686018427387904, UnbufferedOutput = False\<rparr> \<lparr>GOARCH = Int64, make_bytes = (\<lambda>n. n \<le> 1048576), roundupsize = (\<lambda>n. n)\<rparr> 0 \<lparr>CreateTemp_err = None, Write_err = None, Copy_err = None, Seek_err = None\<rparr> \<lparr>Method = ''POST'', URL_Path = ''/app'', URL_RawQuery = [], Header = Map.empty, ContentLength = - 1, TransferEncoding = [''chunked''], Host = ''example.com'', Proto = ''HTTP/1.1'', RemoteAddr = ''192.0.2.1:5000'', TLS = False, Body = OriginalBody (''x'', EOF)\<rparr> = Inl (Panic ''bytes.Buffer: too large'')"
proof -
  have t: "toInt \<lparr>GOARCH = Int64, make_bytes = (\<lambda>n. n \<le> 1048576), roundupsize = (\<lambda>n. n)\<rparr> 4611686018427387904 = 4611686018427387904" "toInt \<lparr>GOARCH = Int64, make_bytes = (\<lambda>n. n \<le> 1048576), roundupsize = (\<lambda>n. n)\<rparr> 4611686018427388416 = 4611686018427388416"
    by (simp_all add: toInt_def)
  have "Grow \<lparr>GOARCH = Int64, make_bytes = (\<lambda>n. n \<le> 1048576), roundupsize = (\<lambda>n. n)\<rparr> 0 4611686018427388416 = Inl (Panic ''bytes.Buffer: too large'')"
    by (simp add: Grow_def grow_def maxInt_def Let_def)
  then have "readBody \<lparr>Executable = ''/bin/app'', WorkingDirectory = [], ScriptName = ''/app'', CGI_Args = [], Envs = [], PassEnvs = [], PassAll = False, Inspect = False, BufferLimit = 4611686018427387904, UnbufferedOutput = False\<rparr> \<lparr>GOARCH = Int64, make_bytes = (\<lambda>n. n \<le> 1048576), roundupsize = (\<lambda>n. n)\<rparr> 0 \<lparr>CreateTemp_err = None, Write_err = None, Copy_err = None, Seek_err = None\<rparr> (''x'', EOF) = Inl (Panic ''bytes.Buffer: too large'')"
    by (simp add: readBody_def t)
  then show ?thesis
    by (simp add: reframe_def)
qed

lemma reframe_negative_count:
  "reframe \<lparr>Executable = ''/bin/app'', WorkingDirectory = [], ScriptName = ''/app'', CGI_Args = [], Envs = [], PassEnvs = [], PassAll = False, Inspect = False, BufferLimit = 2147483647, UnbufferedOutput = False\<rparr> \<lparr>GOARCH = Int32, make_bytes = (\<lambda>n. n \<le> 1048576), roundupsize = (\<lambda>n. n)\<rparr> 0 \<lparr>CreateTemp_err = None, Write_err = None, Copy_err = None, Seek_err = None\<rparr> \<lparr>Method = ''POST'', URL_Path = ''/app'', URL_RawQuery = [], Header = Map.empty, ContentLength = - 1, TransferEncoding = [''chunked''], Host = ''example.com'', Proto = ''HTTP/1.1'', RemoteAddr = ''192.0.2.1:5000'', TLS = False, Body = OriginalBody (''x'', EOF)\<rparr> = Inl (Panic ''bytes.Buffer.Grow: negative count'')"
proof -
  have t: "toInt \<lparr>GOARCH = Int32, make_bytes = (\<lambda>n. n \<le> 1048576), roundupsize = (\<lambda>n. n)\<rparr> 2147483647 = 2147483647" "toInt \<lparr>GOARCH = Int32, make_bytes = (\<lambda>n. n \<le> 1048576), roundupsize = (\<lambda>n. n)\<rparr> 2147484159 = - 2147483137"
    by (simp_all add: toInt_def)
  have "readBody \<lparr>Executable = ''/bin/app'', WorkingDirectory = [], ScriptName = ''/app'', CGI_Args = [], Envs = [], PassEnvs = [], PassAll = False, Inspect = False, BufferLimit = 2147483647, UnbufferedOutput = False\<rparr> \<lparr>GOARCH = Int32, make_bytes = (\<lambda>n. n \<le> 1048576), roundupsize = (\<lambda>n. n)\<rparr> 0 \<lparr>CreateTemp_err = None, Write_err = None, Copy_err = None, Seek_err = None\<rparr> (''x'', EOF) = Inl (Panic ''bytes.Buffer.Grow: negative count'')"
    by (simp add: readBody_def t Grow_def)
  then show ?thesis
    by (simp add: reframe_def)
qed

section \<open>Properties of the response writer adapter\<close>

text \<open>
  C9, as the code has it. When the wrapped writer implements \<open>http.Flusher\<close>,
  \<open>instantWriter.Write\<close> returns the count and the error of the wrapped \<open>Write\<close> and
  leaves the writer in the state that \<open>Flush\<close> gives after that \<open>Write\<close>, whether the
  write failed or not.
\<close>

theorem instantWriter_Write_flushes:
  "Flusher iw = Some flush \<Longrightarrow>
   instantWriter_Write iw w b = Inr (fst (Write iw w b), flush (snd (Write iw w b)))"
  by (simp add: instantWriter_Write_def split: prod.splits)

theorem instantWriter_Write_flushes_witness:
  "instantWriter_Write
     \<lparr>Write = (\<lambda>w b. ((int (length b), None), w @ [''Write''])), Flusher = Some (\<lambda>w. w @ [''Flush''])\<rparr>
     [] ''hello'' = Inr ((5, None), [''Write'', ''Flush''])"
  using instantWriter_Write_flushes
    [of "\<lparr>Write = (\<lambda>w b. ((int (length b), None), w @ [''Write''])), Flusher = Some (\<lambda>w. w @ [''Flush''])\<rparr>"
        "\<lambda>w. w @ [''Flush'']" "[]" "''hello''"]
  by simp

text \<open>
  C9, as stated. A wrapped writer that records its calls and whose \<open>Write\<close> fails has
  recorded the \<open>Write\<close> and then a \<open>Flush\<close>.
\<close>

theorem instantWriter_flush_after_failed_write:
  "instantWriter_Write
     \<lparr>Write = (\<lambda>w b. ((0, Some ''broken pipe''), w @ [''Write''])), Flusher = Some (\<lambda>w. w @ [''Flush''])\<rparr>
     [] ''hello'' = Inr ((0, Some ''broken pipe''), [''Write'', ''Flush''])"
  by (simp add: instantWriter_Write_def)

end
